theory Spec2Isabelle
  imports Main "HOL-Library.Word"
begin

section \<open>JavaScript values\<close>

text \<open>
  A string is its sequence of UTF-16 code units. \<open>js\<close> turns a literal of the source,
  which is ASCII, into its code units.
\<close>

type_synonym code_unit = "16 word"

type_synonym jstring = "code_unit list"

definition js :: "string \<Rightarrow> jstring" where
  "js s = map of_char s"

text \<open>
  The values that flow through \<^verbatim>\<open>app.js\<close>: results of \<^verbatim>\<open>JSON.parse\<close>, object
  literals and what the program reads from them. A number is held as the text that
  \<^verbatim>\<open>Number.prototype.toString\<close> gives for it, which tells any two numbers apart except
  the two zeros, both \<^verbatim>\<open>0\<close>. An object is the list of its own properties, each key
  once (were a key bound twice, the first binding would count); an array is its elements
  followed by its own named properties, none when it comes out of \<^verbatim>\<open>JSON.parse\<close>.
\<close>

datatype jsval =
    Undefined
  | Null
  | Bool bool
  | Num jstring
  | Str jstring
  | Arr "jsval list" "(jstring \<times> jsval) list"
  | Obj "(jstring \<times> jsval) list"

datatype js_error = TypeError | SyntaxError | InvalidStateError | NetworkError

text \<open>ToBoolean, as used by \<^verbatim>\<open>!x\<close>, \<^verbatim>\<open>x && y\<close>, \<^verbatim>\<open>x || y\<close> and \<^verbatim>\<open>if (x)\<close>.\<close>

fun truthy :: "jsval \<Rightarrow> bool" where
  "truthy Undefined = False"
| "truthy Null = False"
| "truthy (Bool b) = b"
| "truthy (Num r) = (r \<noteq> js ''0'' \<and> r \<noteq> js ''NaN'')"
| "truthy (Str s) = (s \<noteq> [])"
| "truthy (Arr xs ps) = True"
| "truthy (Obj fs) = True"

text \<open>The value of the key \<open>k\<close> in a list of own properties.\<close>

definition field :: "(jstring \<times> jsval) list \<Rightarrow> jstring \<Rightarrow> jsval" where
  "field fs k = (case map_of fs k of None \<Rightarrow> Undefined | Some v \<Rightarrow> v)"

text \<open>
  Property read \<^verbatim>\<open>v.k\<close> for the data properties the program reads (\<^verbatim>\<open>email\<close>,
  \<^verbatim>\<open>name\<close>, \<^verbatim>\<open>type\<close>, \<^verbatim>\<open>from\<close>, \<^verbatim>\<open>query\<close>, \<^verbatim>\<open>text\<close>, \<^verbatim>\<open>ts\<close>,
  \<^verbatim>\<open>display_name\<close>), none of which a prototype provides: reading from \<^verbatim>\<open>undefined\<close> or
  \<^verbatim>\<open>null\<close> throws a TypeError, a missing property is \<^verbatim>\<open>undefined\<close>, and booleans,
  numbers and strings have none of them.
\<close>

fun get_prop :: "jsval \<Rightarrow> jstring \<Rightarrow> js_error + jsval" where
  "get_prop Undefined k = Inl TypeError"
| "get_prop Null k = Inl TypeError"
| "get_prop (Obj fs) k = Inr (field fs k)"
| "get_prop (Arr xs ps) k = Inr (field ps k)"
| "get_prop v k = Inr Undefined"

text \<open>
  A further read \<^verbatim>\<open>v.k\<close> once a read of \<^verbatim>\<open>v\<close> has succeeded, so that \<^verbatim>\<open>v\<close> is neither
  \<^verbatim>\<open>undefined\<close> nor \<^verbatim>\<open>null\<close> and the read cannot throw.
\<close>

definition read_prop :: "jsval \<Rightarrow> jstring \<Rightarrow> jsval" where
  "read_prop v k = (case get_prop v k of Inl e \<Rightarrow> Undefined | Inr x \<Rightarrow> x)"

text \<open>The own properties after \<^verbatim>\<open>o.k = v\<close>.\<close>

definition set_field :: "(jstring \<times> jsval) list \<Rightarrow> jstring \<Rightarrow> jsval \<Rightarrow> (jstring \<times> jsval) list" where
  "set_field fs k v =
     (if k \<in> fst ` set fs then map (\<lambda>(k', v'). if k' = k then (k', v) else (k', v')) fs
      else fs @ [(k, v)])"

text \<open>
  Property write \<^verbatim>\<open>o.k = v\<close> for the keys \<^verbatim>\<open>email\<close> and \<^verbatim>\<open>name\<close>, giving the new
  \<^verbatim>\<open>o\<close>: a TypeError on \<^verbatim>\<open>undefined\<close> and \<^verbatim>\<open>null\<close>; on a boolean, a number or a string
  the write is dropped, \<^verbatim>\<open>app.js\<close> having no \<^verbatim>\<open>"use strict"\<close> and not being a module.
\<close>

fun set_prop :: "jsval \<Rightarrow> jstring \<Rightarrow> jsval \<Rightarrow> js_error + jsval" where
  "set_prop Undefined k v = Inl TypeError"
| "set_prop Null k v = Inl TypeError"
| "set_prop (Obj fs) k v = Inr (Obj (set_field fs k v))"
| "set_prop (Arr xs ps) k v = Inr (Arr xs (set_field ps k v))"
| "set_prop x k v = Inr x"

text \<open>
  Strict equality \<^verbatim>\<open>a === b\<close> where \<^verbatim>\<open>a\<close> is freshly parsed: primitives compare by
  value (\<^verbatim>\<open>NaN\<close> equals nothing), arrays and objects by identity, and a freshly parsed
  array or object is identical to nothing else.
\<close>

fun strict_eq :: "jsval \<Rightarrow> jsval \<Rightarrow> bool" where
  "strict_eq (Arr xs ps) b = False"
| "strict_eq (Obj fs) b = False"
| "strict_eq (Num r) b = (b = Num r \<and> r \<noteq> js ''NaN'')"
| "strict_eq a b = (a = b)"

subsection \<open>Conversion to strings and to JSON\<close>

fun join_comma :: "(js_error + jstring) list \<Rightarrow> js_error + jstring" where
  "join_comma [] = Inr []"
| "join_comma [r] = r"
| "join_comma (r # r' # rs) =
     (case r of
        Inl e \<Rightarrow> Inl e
      | Inr s \<Rightarrow>
          (case join_comma (r' # rs) of
             Inl e \<Rightarrow> Inl e
           | Inr t \<Rightarrow> Inr (s @ js '','' @ t)))"

text \<open>
  ToString, as applied by template literals and by \<^verbatim>\<open>+\<close> with a string; for the
  values at hand ToPrimitive fails on the same ones. An own property \<^verbatim>\<open>toString\<close> of
  an object or an array cannot be called, a parsed value holding no function: then the
  conversion throws. Otherwise an object prints as \<^verbatim>\<open>[object Object]\<close>, and an array
  is joined with commas, \<^verbatim>\<open>undefined\<close> and \<^verbatim>\<open>null\<close> elements giving nothing, unless
  an own property \<^verbatim>\<open>join\<close> hides the method: then it prints as \<^verbatim>\<open>[object Array]\<close>.
\<close>

fun to_string :: "jsval \<Rightarrow> js_error + jstring" where
  "to_string Undefined = Inr (js ''undefined'')"
| "to_string Null = Inr (js ''null'')"
| "to_string (Bool b) = Inr (if b then js ''true'' else js ''false'')"
| "to_string (Num r) = Inr r"
| "to_string (Str s) = Inr s"
| "to_string (Arr xs ps) =
     (if js ''toString'' \<in> fst ` set ps then Inl TypeError
      else if js ''join'' \<in> fst ` set ps then Inr (js ''[object Array]'')
      else join_comma (map (\<lambda>x. if x = Undefined \<or> x = Null then Inr [] else to_string x) xs))"
| "to_string (Obj fs) =
     (if js ''toString'' \<in> fst ` set fs then Inl TypeError else Inr (js ''[object Object]''))"

text \<open>
  The conversion of an assignment to \<^verbatim>\<open>input.value\<close>: as ToString, except that
  \<^verbatim>\<open>null\<close> becomes the empty string.
\<close>

definition to_dom_value :: "jsval \<Rightarrow> js_error + jstring" where
  "to_dom_value v = (if v = Null then Inr [] else to_string v)"

text \<open>
  The conversion of an assignment to \<^verbatim>\<open>textContent\<close>: as ToString, except that
  \<^verbatim>\<open>null\<close> and \<^verbatim>\<open>undefined\<close> become the empty string.
\<close>

definition to_text_content :: "jsval \<Rightarrow> js_error + jstring" where
  "to_text_content v = (if v = Null \<or> v = Undefined then Inr [] else to_string v)"

text \<open>
  The value that the text \<^verbatim>\<open>JSON.stringify(v)\<close> denotes: properties that are
  \<^verbatim>\<open>undefined\<close> are left out, \<^verbatim>\<open>undefined\<close> elements and the numbers that are not
  finite become \<^verbatim>\<open>null\<close>, and an array loses its named properties.
\<close>

fun to_json :: "jsval \<Rightarrow> jsval" where
  "to_json Undefined = Null"
| "to_json (Num r) =
     (if r \<in> {js ''Infinity'', js ''-Infinity'', js ''NaN''} then Null else Num r)"
| "to_json (Arr xs ps) = Arr (map to_json xs) []"
| "to_json (Obj fs) =
     Obj (map (\<lambda>(k, v). (k, to_json v)) (filter (\<lambda>(k, v). v \<noteq> Undefined) fs))"
| "to_json v = v"

text \<open>The decimal digits of a natural number: the text of an integer below \<open>10\<^sup>2\<^sup>1\<close>.\<close>

fun string_of_nat :: "nat \<Rightarrow> jstring" where
  "string_of_nat n = (if n < 10 then [of_nat (48 + n)]
     else string_of_nat (n div 10) @ [of_nat (48 + n mod 10)])"

declare string_of_nat.simps [simp del]

subsection \<open>String methods\<close>

text \<open>
  \<^verbatim>\<open>String.prototype.toLowerCase\<close>. On a string made of ASCII and the Greek sigmas
  (\<open>\<Sigma>\<close> U+03A3, \<open>\<sigma>\<close> U+03C3, \<open>\<sigma>\<close> final U+03C2) the result is written out: \<^verbatim>\<open>A\<close> to
  \<^verbatim>\<open>Z\<close> go to \<^verbatim>\<open>a\<close> to \<^verbatim>\<open>z\<close>, and a capital sigma goes to the final sigma when a
  cased letter comes before it, case-ignorable characters apart, and none comes after
  it, case-ignorable characters apart (the condition Final_Sigma of Unicode), else to
  \<open>\<sigma>\<close>. On every other string the result is what the engine's Unicode tables make it,
  which are not part of \<^verbatim>\<open>app.js\<close>: the parameter \<open>L\<close>.
\<close>

type_synonym lowering = "jstring \<Rightarrow> jstring"

definition in_fragment :: "code_unit \<Rightarrow> bool" where
  "in_fragment c \<longleftrightarrow> c < 0x80 \<or> c = 0x3A3 \<or> c = 0x3C3 \<or> c = 0x3C2"

definition cased :: "code_unit \<Rightarrow> bool" where
  "cased c \<longleftrightarrow> (0x41 \<le> c \<and> c \<le> 0x5A) \<or> (0x61 \<le> c \<and> c \<le> 0x7A)
     \<or> c = 0x3A3 \<or> c = 0x3C3 \<or> c = 0x3C2"

definition case_ignorable :: "code_unit \<Rightarrow> bool" where
  "case_ignorable c \<longleftrightarrow> c = 0x27 \<or> c = 0x2E \<or> c = 0x3A \<or> c = 0x5E \<or> c = 0x60"

text \<open>Whether the first character that is not case-ignorable is a cased letter.\<close>

definition meets_cased :: "jstring \<Rightarrow> bool" where
  "meets_cased s = (case dropWhile case_ignorable s of [] \<Rightarrow> False | c # cs \<Rightarrow> cased c)"

text \<open>The lower case of an ASCII code unit.\<close>

definition lower_ascii :: "code_unit \<Rightarrow> code_unit" where
  "lower_ascii c = (if 0x41 \<le> c \<and> c \<le> 0x5A then c + 0x20 else c)"

text \<open>
  The lower case of the code unit \<open>c\<close> of the fragment that stands between
  \<open>rev before\<close> and \<open>after\<close>.
\<close>

definition lower_unit :: "jstring \<Rightarrow> code_unit \<Rightarrow> jstring \<Rightarrow> code_unit" where
  "lower_unit before c after =
     (if c = 0x3A3 then (if meets_cased before \<and> \<not> meets_cased after then 0x3C2 else 0x3C3)
      else lower_ascii c)"

fun lower_from :: "jstring \<Rightarrow> jstring \<Rightarrow> jstring" where
  "lower_from before [] = []"
| "lower_from before (c # cs) = lower_unit before c cs # lower_from (c # before) cs"

definition toLowerCase :: "lowering \<Rightarrow> jstring \<Rightarrow> jstring" where
  "toLowerCase L s = (if list_all in_fragment s then lower_from [] s else L s)"

text \<open>\<^verbatim>\<open>s.includes(t)\<close>: \<^verbatim>\<open>t\<close> occurs in \<^verbatim>\<open>s\<close> at some position.\<close>

fun str_includes :: "jstring \<Rightarrow> jstring \<Rightarrow> bool" where
  "str_includes [] t = (t = [])"
| "str_includes (c # s) t = (take (length t) (c # s) = t \<or> str_includes s t)"

text \<open>
  \<^verbatim>\<open>String.prototype.trim\<close>: the code units of WhiteSpace and LineTerminator are
  stripped from both ends.
\<close>

definition is_space :: "code_unit \<Rightarrow> bool" where
  "is_space c \<longleftrightarrow>
     c \<in> {0x9, 0xA, 0xB, 0xC, 0xD, 0x20, 0xA0, 0x1680, 0x2028, 0x2029, 0x202F, 0x205F,
          0x3000, 0xFEFF}
     \<or> (0x2000 \<le> c \<and> c \<le> 0x200A)"

definition trim :: "jstring \<Rightarrow> jstring" where
  "trim s = rev (dropWhile is_space (rev (dropWhile is_space s)))"

text \<open>
  The method call \<^verbatim>\<open>v.toLowerCase()\<close> on an arbitrary value: only strings have the
  method; on anything else the call throws a TypeError.
\<close>

fun call_toLowerCase :: "lowering \<Rightarrow> jsval \<Rightarrow> js_error + jstring" where
  "call_toLowerCase L (Str s) = Inr (toLowerCase L s)"
| "call_toLowerCase L v = Inl TypeError"

text \<open>\<^verbatim>\<open>x.split('@')[0]\<close>: only strings have the method.\<close>

fun split_at_first :: "jsval \<Rightarrow> js_error + jsval" where
  "split_at_first (Str s) = Inr (Str (takeWhile (\<lambda>c. c \<noteq> 0x40) s))"
| "split_at_first v = Inl TypeError"

section \<open>PresenceDirectory: \<^verbatim>\<open>fetchOnline\<close>\<close>

text \<open>
  What the environment answers to \<^verbatim>\<open>fetch(API_BASE + '/online')\<close>: the promise rejects
  (transport error), or resolves to a response with its \<^verbatim>\<open>ok\<close> flag and a body that
  \<^verbatim>\<open>res.json()\<close> either decodes or rejects (\<open>None\<close>).
\<close>

record response =
  ok :: bool
  json_body :: "jsval option"

datatype http_outcome = Rejected | Resolved response

definition fetch_api :: "http_outcome \<Rightarrow> js_error + response" where
  "fetch_api out = (case out of Rejected \<Rightarrow> Inl NetworkError | Resolved res \<Rightarrow> Inr res)"

definition res_json :: "response \<Rightarrow> js_error + jsval" where
  "res_json res = (case json_body res of None \<Rightarrow> Inl SyntaxError | Some data \<Rightarrow> Inr data)"

fun isArray :: "jsval \<Rightarrow> bool" where
  "isArray (Arr xs ps) = True"
| "isArray v = False"

fun array_elems :: "jsval \<Rightarrow> jsval list" where
  "array_elems (Arr xs ps) = xs"
| "array_elems v = []"

text \<open>The body of the \<^verbatim>\<open>try\<close> block of \<^verbatim>\<open>fetchOnline\<close>.\<close>

definition fetchOnline_try :: "http_outcome \<Rightarrow> js_error + jsval list" where
  "fetchOnline_try out =
     (case fetch_api out of
        Inl e \<Rightarrow> Inl e
      | Inr res \<Rightarrow>
          if \<not> ok res then Inr []
          else (case res_json res of
                  Inl e \<Rightarrow> Inl e
                | Inr data \<Rightarrow> Inr (if isArray data then array_elems data else [])))"

text \<open>\<^verbatim>\<open>fetchOnline\<close>: the \<^verbatim>\<open>try\<close> block with its \<^verbatim>\<open>catch (e) { return []; }\<close>.\<close>

definition fetchOnline :: "http_outcome \<Rightarrow> js_error + jsval list" where
  "fetchOnline out =
     (case fetchOnline_try out of Inl e \<Rightarrow> Inr [] | Inr list \<Rightarrow> Inr list)"

section \<open>PresenceDirectory: \<^verbatim>\<open>renderOnline\<close>\<close>

text \<open>
  A child of \<^verbatim>\<open>onlineList\<close>: its class name, the text or markup assigned to it, and
  for a member row the entry \<^verbatim>\<open>u\<close> that its click handler has captured.
\<close>

datatype node = Node (className: jstring) (content: jstring) (captured: "jsval option")

text \<open>
  The predicate handed to \<^verbatim>\<open>list.filter\<close>:
  \<^verbatim>\<open>u => !filter || (u.email && u.email.toLowerCase().includes(filter.toLowerCase()))\<close>.
\<close>

definition online_match :: "lowering \<Rightarrow> jsval \<Rightarrow> jsval \<Rightarrow> js_error + bool" where
  "online_match L filt u =
     (if \<not> truthy filt then Inr True
      else (case get_prop u (js ''email'') of
              Inl e \<Rightarrow> Inl e
            | Inr em \<Rightarrow>
                if \<not> truthy em then Inr False
                else (case call_toLowerCase L em of
                        Inl e \<Rightarrow> Inl e
                      | Inr le \<Rightarrow>
                          (case call_toLowerCase L filt of
                             Inl e \<Rightarrow> Inl e
                           | Inr lf \<Rightarrow> Inr (str_includes le lf)))))"

text \<open>\<^verbatim>\<open>Array.prototype.filter\<close> with a callback that may throw.\<close>

fun array_filter :: "(jsval \<Rightarrow> js_error + bool) \<Rightarrow> jsval list \<Rightarrow> js_error + jsval list" where
  "array_filter p [] = Inr []"
| "array_filter p (u # us) =
     (case p u of
        Inl e \<Rightarrow> Inl e
      | Inr b \<Rightarrow>
          (case array_filter p us of
             Inl e \<Rightarrow> Inl e
           | Inr r \<Rightarrow> Inr (if b then u # r else r)))"

text \<open>
  The template literal
  \<^verbatim>\<open>`<div class="email">${u.email}</div><div class="name">${u.name || ''}</div>`\<close>, given
  \<^verbatim>\<open>u.email\<close> and \<^verbatim>\<open>u.name\<close>.
\<close>

definition entry_html :: "jsval \<Rightarrow> jsval \<Rightarrow> js_error + jstring" where
  "entry_html em nm =
     (case to_string em of
        Inl e \<Rightarrow> Inl e
      | Inr a \<Rightarrow>
          (case to_string (if truthy nm then nm else Str []) of
             Inl e \<Rightarrow> Inl e
           | Inr b \<Rightarrow>
               Inr (js ''<div class=\"email\">'' @ a @ js ''</div><div class=\"name\">'' @ b
                      @ js ''</div>'')))"

definition member_entry :: "jsval \<Rightarrow> js_error + node" where
  "member_entry u =
     (case get_prop u (js ''email'') of
        Inl e \<Rightarrow> Inl e
      | Inr em \<Rightarrow>
          (case entry_html em (read_prop u (js ''name'')) of
             Inl e \<Rightarrow> Inl e
           | Inr html \<Rightarrow> Inr (Node (js ''member-entry'') html (Some u))))"

text \<open>
  \<^verbatim>\<open>filtered.forEach(u => { ...; onlineList.appendChild(el); })\<close>: the children appended
  so far stay in the document when a later iteration throws.
\<close>

fun append_entries :: "node list \<Rightarrow> jsval list \<Rightarrow> node list \<times> js_error option" where
  "append_entries kids [] = (kids, None)"
| "append_entries kids (u # us) =
     (case member_entry u of
        Inl e \<Rightarrow> (kids, Some e)
      | Inr el \<Rightarrow> append_entries (kids @ [el]) us)"

definition no_contacts :: node where
  "no_contacts = Node (js ''no-contacts'') (js ''No matching online members'') None"

text \<open>
  \<^verbatim>\<open>renderOnline(list, filter)\<close>: the new children of \<^verbatim>\<open>onlineList\<close>, and the exception
  the call ends with, if any.
\<close>

definition renderOnline :: "lowering \<Rightarrow> jsval list \<Rightarrow> jsval \<Rightarrow> node list \<times> js_error option" where
  "renderOnline L list filt =
     (case array_filter (online_match L filt) list of
        Inl e \<Rightarrow> ([], Some e)
      | Inr filtered \<Rightarrow>
          if length filtered = 0 then ([no_contacts], None)
          else append_entries [] filtered)"

section \<open>The page: connection, identity, search field, composer\<close>

text \<open>
  A \<^verbatim>\<open>WebSocket\<close> as the program sees it: its \<^verbatim>\<open>readyState\<close> and the frames that
  \<^verbatim>\<open>send\<close> has handed to the network, oldest first. A frame is the JSON value that the
  text given to \<^verbatim>\<open>send\<close> denotes.
\<close>

datatype ready_state = CONNECTING | OPEN | CLOSING | CLOSED

record socket =
  readyState :: ready_state
  sent :: "jsval list"

text \<open>
  An element appended to \<^verbatim>\<open>messagesEl\<close> by \<^verbatim>\<open>addMessage\<close>: the sender shown in its
  meta line, the \<^verbatim>\<open>ts\<close> that its time is made from, its text, and whether it has the
  class \<^verbatim>\<open>me\<close>.
\<close>

record message_el =
  msg_who :: jstring
  msg_ts :: jsval
  msg_text :: jstring
  meFlag :: bool

text \<open>
  What the login handler catches: an exception of the engine, or an \<^verbatim>\<open>Error\<close> made
  by the handler with a message.
\<close>

datatype thrown = Engine js_error | Error jstring

datatype alert = Alert jstring | LoginFailed thrown

text \<open>The outcome of \<^verbatim>\<open>JSON.parse\<close> on a text: a SyntaxError or the value.\<close>

datatype parsed = Garbled | Parsed jsval

text \<open>
  The mutable state of the page. \<open>me\<close> is the value of the variable \<^verbatim>\<open>me\<close>; \<open>ws\<close> is
  the variable \<^verbatim>\<open>ws\<close>, \<open>None\<close> for \<^verbatim>\<open>null\<close> and otherwise the index, in \<open>sockets\<close>, of
  the socket it refers to (\<open>sockets\<close> holds every socket made so far, in the order of
  their making). \<open>chatX_user\<close> is the item of that name in the session store, \<open>None\<close>
  when it is missing or empty, and otherwise what \<^verbatim>\<open>JSON.parse\<close> makes of its text.
  \<open>timers\<close> holds the pending \<^verbatim>\<open>setTimeout\<close> tasks of the search field as (handle, due
  time, captured \<^verbatim>\<open>v\<close>); \<open>fetches\<close> holds the filter argument of every call of
  \<^verbatim>\<open>fetchAndRenderOnline\<close> that still awaits its response. The page (not part of
  \<^verbatim>\<open>app.js\<close>) is taken to have the elements that the script looks up, so that the guards
  \<^verbatim>\<open>if (memberSearch)\<close> hold, and a search field that keeps the text assigned to it.
  Time is in milliseconds.
\<close>

record state =
  now :: nat
  sockets :: "socket list"
  ws :: "nat option"
  me :: jsval
  chatX_user :: "parsed option"
  loginModal_hidden :: bool
  userInfo :: jstring
  messagesEl :: "message_el list"
  messageInput :: jstring
  memberSearch :: jstring
  search_focused :: bool
  onlineList :: "node list"
  onlineDebounce :: "nat option"
  timers :: "(nat \<times> nat \<times> jstring) list"
  next_timer :: nat
  fetches :: "jsval list"
  alerts :: "alert list"

subsection \<open>\<^verbatim>\<open>WebSocket.send\<close> and \<^verbatim>\<open>connect\<close>\<close>

text \<open>
  \<^verbatim>\<open>ws.send(frame)\<close> on the socket that \<^verbatim>\<open>ws\<close> refers to: a TypeError when \<^verbatim>\<open>ws\<close> is
  \<^verbatim>\<open>null\<close>, an InvalidStateError while the socket is connecting, transmission when it
  is open, and nothing (the data is discarded) once it is closing or closed.
\<close>

definition ws_send :: "jsval \<Rightarrow> state \<Rightarrow> js_error + state" where
  "ws_send frame s =
     (case ws s of
        None \<Rightarrow> Inl TypeError
      | Some i \<Rightarrow>
          (case readyState (sockets s ! i) of
             CONNECTING \<Rightarrow> Inl InvalidStateError
           | OPEN \<Rightarrow>
               Inr (s\<lparr>sockets := (sockets s)
                      [i := (sockets s ! i)\<lparr>sent := sent (sockets s ! i) @ [frame]\<rparr>]\<rparr>)
           | CLOSING \<Rightarrow> Inr s
           | CLOSED \<Rightarrow> Inr s))"

text \<open>\<^verbatim>\<open>ws && ws.readyState === WebSocket.OPEN\<close>.\<close>

definition ws_is_open :: "state \<Rightarrow> bool" where
  "ws_is_open s = (case ws s of None \<Rightarrow> False | Some i \<Rightarrow> readyState (sockets s ! i) = OPEN)"

text \<open>
  \<^verbatim>\<open>connect()\<close>: a new socket, connecting, becomes the value of \<^verbatim>\<open>ws\<close>; the four
  listeners registered on it are \<open>on_open\<close>, \<open>on_message\<close> and two that only log.
\<close>

definition connect :: "state \<Rightarrow> state" where
  "connect s =
     s\<lparr>sockets := sockets s @ [\<lparr>readyState = CONNECTING, sent = []\<rparr>],
       ws := Some (length (sockets s))\<rparr>"

subsection \<open>Presence refresh\<close>

text \<open>
  \<^verbatim>\<open>fetchAndRenderOnline(filter)\<close> up to its \<^verbatim>\<open>await\<close>: the request is under way. Its
  continuation runs when the response arrives (\<open>fetch_done\<close>).
\<close>

definition fetchAndRenderOnline :: "jsval \<Rightarrow> state \<Rightarrow> state" where
  "fetchAndRenderOnline filt s = s\<lparr>fetches := fetches s @ [filt]\<rparr>"

text \<open>
  The continuation of the \<open>k\<close>-th pending \<^verbatim>\<open>fetchAndRenderOnline\<close>:
  \<^verbatim>\<open>renderOnline(list, filter)\<close> on what \<^verbatim>\<open>fetchOnline\<close> returned. An exception of
  \<^verbatim>\<open>renderOnline\<close> rejects the promise, which nobody awaits.
\<close>

definition fetch_done :: "lowering \<Rightarrow> nat \<Rightarrow> http_outcome \<Rightarrow> state \<Rightarrow> state" where
  "fetch_done L k out s =
     (case fetchOnline out of
        Inl e \<Rightarrow> s\<lparr>fetches := take k (fetches s) @ drop (Suc k) (fetches s)\<rparr>
      | Inr list \<Rightarrow>
          s\<lparr>fetches := take k (fetches s) @ drop (Suc k) (fetches s),
            onlineList := fst (renderOnline L list (fetches s ! k))\<rparr>)"

subsection \<open>The listeners of a socket\<close>

text \<open>
  The frame of \<^verbatim>\<open>{ type: 'join', email: me.email, name: me.name, ts: Date.now() }\<close>,
  given \<^verbatim>\<open>me.email\<close>, \<^verbatim>\<open>me.name\<close> and the time.
\<close>

definition join_envelope :: "jsval \<Rightarrow> jsval \<Rightarrow> nat \<Rightarrow> jsval" where
  "join_envelope em nm t =
     to_json (Obj [(js ''type'', Str (js ''join'')), (js ''email'', em), (js ''name'', nm),
       (js ''ts'', Num (string_of_nat t))])"

text \<open>
  The \<^verbatim>\<open>open\<close> listener. An exception, of the read of \<^verbatim>\<open>me.email\<close> or of
  \<^verbatim>\<open>ws.send\<close>, ends the listener before the presence refresh.
\<close>

definition on_open :: "state \<Rightarrow> state" where
  "on_open s =
     (case get_prop (me s) (js ''email'') of
        Inl e \<Rightarrow> s
      | Inr em \<Rightarrow>
          (case ws_send (join_envelope em (read_prop (me s) (js ''name'')) (now s)) s of
             Inl e \<Rightarrow> s
           | Inr s' \<Rightarrow> fetchAndRenderOnline Undefined s'))"

text \<open>
  \<^verbatim>\<open>addMessage({ from, name, text, ts, meFlag })\<close>: the element is appended at the end,
  once \<^verbatim>\<open>`${name || from}`\<close>, \<^verbatim>\<open>new Date(ts)\<close> and the assignment of \<^verbatim>\<open>text\<close> to
  \<^verbatim>\<open>textContent\<close> have converted their values, any of which may throw.
\<close>

definition addMessage :: "jsval \<Rightarrow> jsval \<Rightarrow> jsval \<Rightarrow> jsval \<Rightarrow> bool \<Rightarrow> state \<Rightarrow> js_error + state" where
  "addMessage frm nm txt ts flag s =
     (case to_string (if truthy nm then nm else frm) of
        Inl e \<Rightarrow> Inl e
      | Inr who \<Rightarrow>
          (case to_string ts of
             Inl e \<Rightarrow> Inl e
           | Inr t \<Rightarrow>
               (case to_text_content txt of
                  Inl e \<Rightarrow> Inl e
                | Inr body \<Rightarrow>
                    Inr (s\<lparr>messagesEl := messagesEl s
                           @ [\<lparr>msg_who = who, msg_ts = ts, msg_text = body, meFlag = flag\<rparr>]\<rparr>))))"

text \<open>
  The \<^verbatim>\<open>message\<close> listener; its \<^verbatim>\<open>try\<close> block catches every exception and logs it.
\<close>

definition on_message_try :: "parsed \<Rightarrow> state \<Rightarrow> js_error + state" where
  "on_message_try ev_data s =
     (case ev_data of
        Garbled \<Rightarrow> Inl SyntaxError
      | Parsed data \<Rightarrow>
          (case get_prop data (js ''type'') of
             Inl e \<Rightarrow> Inl e
           | Inr ty \<Rightarrow>
               if strict_eq ty (Str (js ''message'')) then
                 (case get_prop (me s) (js ''email'') of
                    Inl e \<Rightarrow> Inl e
                  | Inr mine \<Rightarrow>
                      addMessage (read_prop data (js ''email'')) (read_prop data (js ''name''))
                        (read_prop data (js ''text'')) (read_prop data (js ''ts''))
                        (strict_eq (read_prop data (js ''email'')) mine) s)
               else if \<not> strict_eq ty (Str (js ''search'')) then Inr s
               else
                 (case get_prop (me s) (js ''email'') of
                    Inl e \<Rightarrow> Inl e
                  | Inr mine \<Rightarrow>
                      if strict_eq (read_prop data (js ''from'')) mine then Inr s
                      else
                        (case to_dom_value (read_prop data (js ''query'')) of
                           Inl e \<Rightarrow> Inl e
                         | Inr shown \<Rightarrow>
                             Inr (fetchAndRenderOnline (read_prop data (js ''query''))
                                    (s\<lparr>memberSearch := shown\<rparr>))))))"

definition on_message :: "parsed \<Rightarrow> state \<Rightarrow> state" where
  "on_message ev_data s = (case on_message_try ev_data s of Inl e \<Rightarrow> s | Inr s' \<Rightarrow> s')"

subsection \<open>The search field\<close>

text \<open>\<^verbatim>\<open>clearTimeout(id)\<close>.\<close>

definition clearTimeout :: "nat \<Rightarrow> state \<Rightarrow> state" where
  "clearTimeout h s = s\<lparr>timers := filter (\<lambda>(h', due, v). h' \<noteq> h) (timers s)\<rparr>"

text \<open>
  \<^verbatim>\<open>onlineDebounce = setTimeout(callback, delay)\<close>, the callback having captured \<open>v\<close>:
  handles are positive and never reused.
\<close>

definition setTimeout_debounce :: "jstring \<Rightarrow> nat \<Rightarrow> state \<Rightarrow> state" where
  "setTimeout_debounce v delay s =
     s\<lparr>timers := timers s @ [(next_timer s, now s + delay, v)],
       onlineDebounce := Some (next_timer s),
       next_timer := Suc (next_timer s)\<rparr>"

text \<open>
  The \<^verbatim>\<open>input\<close> listener of the search field; \<open>raw\<close> is the new content of the field.
\<close>

definition on_search_input :: "jstring \<Rightarrow> state \<Rightarrow> state" where
  "on_search_input raw s =
     (let s1 = s\<lparr>memberSearch := raw\<rparr>;
          v = trim raw;
          s2 = (case onlineDebounce s1 of
                  None \<Rightarrow> s1
                | Some h \<Rightarrow> if h \<noteq> 0 then clearTimeout h s1 else s1)
      in setTimeout_debounce v 180 s2)"

text \<open>
  The frame of \<^verbatim>\<open>{ type: 'search', query: v, from: me.email }\<close>, given \<^verbatim>\<open>v\<close> and
  \<^verbatim>\<open>me.email\<close>.
\<close>

definition search_envelope :: "jstring \<Rightarrow> jsval \<Rightarrow> jsval" where
  "search_envelope v em =
     to_json (Obj [(js ''type'', Str (js ''search'')), (js ''query'', Str v), (js ''from'', em)])"

text \<open>
  The callback given to \<^verbatim>\<open>setTimeout\<close>. An exception of the read of \<^verbatim>\<open>me.email\<close> ends
  it before the presence refresh.
\<close>

definition debounce_fire :: "jstring \<Rightarrow> state \<Rightarrow> state" where
  "debounce_fire v s =
     (if ws_is_open s then
        (case get_prop (me s) (js ''email'') of
           Inl e \<Rightarrow> s
         | Inr em \<Rightarrow>
             fetchAndRenderOnline (Str v)
               (case ws_send (search_envelope v em) s of Inl e \<Rightarrow> s | Inr s' \<Rightarrow> s'))
      else fetchAndRenderOnline (Str v) s)"

definition on_search_focus :: "state \<Rightarrow> state" where
  "on_search_focus s =
     fetchAndRenderOnline (Str (trim (memberSearch s))) (s\<lparr>search_focused := True\<rparr>)"

text \<open>The callback given to \<^verbatim>\<open>setInterval\<close>, every 8000 ms.\<close>

definition interval_fire :: "state \<Rightarrow> state" where
  "interval_fire s =
     (if search_focused s then s
      else fetchAndRenderOnline (Str (trim (memberSearch s))) s)"

subsection \<open>The composer\<close>

text \<open>
  The frame of \<^verbatim>\<open>{ type: 'message', email: me.email, name: me.name, text, ts: Date.now() }\<close>.
\<close>

definition message_envelope :: "jsval \<Rightarrow> jsval \<Rightarrow> jstring \<Rightarrow> nat \<Rightarrow> jsval" where
  "message_envelope em nm text t =
     to_json (Obj [(js ''type'', Str (js ''message'')), (js ''email'', em), (js ''name'', nm),
       (js ''text'', Str text), (js ''ts'', Num (string_of_nat t))])"

text \<open>
  The \<^verbatim>\<open>submit\<close> listener of the composer. An exception of the read of \<^verbatim>\<open>me.email\<close>
  ends it at once.
\<close>

definition composer_submit :: "state \<Rightarrow> state" where
  "composer_submit s =
     (case get_prop (me s) (js ''email'') of
        Inl e \<Rightarrow> s
      | Inr em \<Rightarrow>
          if \<not> truthy em then s\<lparr>alerts := alerts s @ [Alert (js ''Please login first'')]\<rparr>
          else
            let text = trim (messageInput s) in
            if text = [] then s
            else
              let s1 = (if ws_is_open s
                        then (case ws_send (message_envelope em (read_prop (me s) (js ''name''))
                                              text (now s)) s of
                                Inl e \<Rightarrow> s | Inr s' \<Rightarrow> s')
                        else s\<lparr>alerts := alerts s @ [Alert (js ''Not connected to server'')]\<rparr>)
              in s1\<lparr>messageInput := []\<rparr>)"

text \<open>
  The \<^verbatim>\<open>click\<close> listener of the \<open>k\<close>-th child of \<^verbatim>\<open>onlineList\<close>; the placeholder has
  none. The message input takes the focus before \<^verbatim>\<open>`@${u.email} `\<close> is made.
\<close>

definition member_click :: "nat \<Rightarrow> state \<Rightarrow> state" where
  "member_click k s =
     (case captured (onlineList s ! k) of
        None \<Rightarrow> s
      | Some u \<Rightarrow>
          (case to_string (read_prop u (js ''email'')) of
             Inl e \<Rightarrow> s\<lparr>search_focused := False\<rparr>
           | Inr t \<Rightarrow>
               s\<lparr>search_focused := False, messageInput := js ''@'' @ t @ js '' ''\<rparr>))"

subsection \<open>Login and session restore\<close>

text \<open>
  How the login request ended before the handler reaches \<^verbatim>\<open>me.email = data.email\<close>: the
  fields were incomplete, something was thrown (transport error, bad body, status not
  ok), or the response was fine and \<^verbatim>\<open>data\<close> is its decoded body.
\<close>

datatype login_result = MissingCredentials | RequestFailed thrown | Body jsval

text \<open>\<^verbatim>\<open>me.name + ' (' + me.email + ')'\<close> for the value \<open>m\<close> of \<^verbatim>\<open>me\<close>.\<close>

definition userInfo_text :: "jsval \<Rightarrow> js_error + jstring" where
  "userInfo_text m =
     (case get_prop m (js ''name'') of
        Inl e \<Rightarrow> Inl e
      | Inr nm \<Rightarrow>
          (case to_string nm of
             Inl e \<Rightarrow> Inl e
           | Inr a \<Rightarrow>
               (case to_string (read_prop m (js ''email'')) of
                  Inl e \<Rightarrow> Inl e
                | Inr b \<Rightarrow> Inr (a @ js '' ('' @ b @ js '')''))))"

text \<open>
  The last six statements of the login handler's \<^verbatim>\<open>try\<close> block: the state they leave,
  with the exception that ended them, if any. What was assigned before the exception
  stays. The session store is taken to accept the text.
\<close>

definition login_body :: "jsval \<Rightarrow> state \<Rightarrow> state \<times> js_error option" where
  "login_body data s =
     (case get_prop data (js ''email'') of
        Inl e \<Rightarrow> (s, Some e)
      | Inr em \<Rightarrow>
          (case set_prop (me s) (js ''email'') em of
             Inl e \<Rightarrow> (s, Some e)
           | Inr m1 \<Rightarrow>
               (case (if truthy (read_prop data (js ''display_name''))
                      then Inr (read_prop data (js ''display_name''))
                      else split_at_first em) of
                  Inl e \<Rightarrow> (s\<lparr>me := m1\<rparr>, Some e)
                | Inr nm \<Rightarrow>
                    (case set_prop m1 (js ''name'') nm of
                       Inl e \<Rightarrow> (s\<lparr>me := m1\<rparr>, Some e)
                     | Inr m2 \<Rightarrow>
                         let s2 = s\<lparr>me := m2, chatX_user := Some (Parsed (to_json m2)),
                                    loginModal_hidden := True\<rparr>
                         in (case userInfo_text m2 of
                               Inl e \<Rightarrow> (s2, Some e)
                             | Inr t \<Rightarrow> (connect (s2\<lparr>userInfo := t\<rparr>), None))))))"

definition login_click :: "login_result \<Rightarrow> state \<Rightarrow> state" where
  "login_click r s =
     (case r of
        MissingCredentials \<Rightarrow>
          s\<lparr>alerts := alerts s @ [Alert (js ''Please provide both email and password'')]\<rparr>
      | RequestFailed t \<Rightarrow> s\<lparr>alerts := alerts s @ [LoginFailed t]\<rparr>
      | Body data \<Rightarrow>
          (case login_body data s of
             (s', None) \<Rightarrow> s'
           | (s', Some e) \<Rightarrow> s'\<lparr>alerts := alerts s' @ [LoginFailed (Engine e)]\<rparr>))"

text \<open>
  The page as the script leaves it when it has run to its end at time \<open>t0\<close> (a time
  value, so at most \<open>8.64 \<times> 10\<^sup>1\<^sup>5\<close>) without a stored session: nobody logged in, no
  socket; handle 1 is the one of \<^verbatim>\<open>setInterval\<close>.
\<close>

definition initial :: "nat \<Rightarrow> parsed option \<Rightarrow> state" where
  "initial t0 saved =
     \<lparr>now = t0, sockets = [], ws = None,
      me = Obj [(js ''email'', Null), (js ''name'', Null)],
      chatX_user = saved, loginModal_hidden = False, userInfo = [],
      messagesEl = [], messageInput = [], memberSearch = [], search_focused = False,
      onlineList = [], onlineDebounce = None, timers = [], next_timer = 2,
      fetches = [], alerts = []\<rparr>"

text \<open>
  The script with its session restore (\<^verbatim>\<open>// try restore\<close>):
  \<^verbatim>\<open>me = JSON.parse(saved); loginModal.style.display = 'none'; userInfo.textContent = ...;
  connect();\<close> in a \<^verbatim>\<open>try\<close> block whose \<^verbatim>\<open>catch\<close> is empty. A text that does not parse
  changes nothing; an exception while the text of \<^verbatim>\<open>userInfo\<close> is made leaves \<^verbatim>\<open>me\<close>
  assigned and the login dialogue hidden, and \<^verbatim>\<open>connect()\<close> is not reached.
\<close>

definition page_load :: "nat \<Rightarrow> parsed option \<Rightarrow> state" where
  "page_load t0 saved =
     (case saved of
        None \<Rightarrow> initial t0 saved
      | Some Garbled \<Rightarrow> initial t0 saved
      | Some (Parsed v) \<Rightarrow>
          (case userInfo_text v of
             Inl e \<Rightarrow> (initial t0 saved)\<lparr>me := v, loginModal_hidden := True\<rparr>
           | Inr t \<Rightarrow>
               connect ((initial t0 saved)
                 \<lparr>me := v, loginModal_hidden := True, userInfo := t\<rparr>)))"

subsection \<open>Events\<close>

text \<open>
  Everything that makes the page run a listener or a callback. \<open>Tick d\<close> lets \<open>d\<close>
  milliseconds pass; the clock stays within the range of a time value, \<open>8.64 \<times> 10\<^sup>1\<^sup>5\<close>.
  An event that the environment cannot produce in a state (a frame on a socket that is
  not open, a timer that is not due) has no successor state.
\<close>

datatype event =
    Tick nat
  | LoginClick login_result
  | WsOpen nat
  | WsMessage nat parsed
  | WsError nat
  | WsClosing nat
  | WsClose nat
  | SearchInput jstring
  | SearchFocus
  | SearchBlur
  | TimerFire nat
  | IntervalFire
  | FetchDone nat http_outcome
  | MessageInput jstring
  | MemberClick nat
  | ComposerSubmit

definition set_readyState :: "nat \<Rightarrow> ready_state \<Rightarrow> state \<Rightarrow> state" where
  "set_readyState i r s = s\<lparr>sockets := (sockets s)[i := (sockets s ! i)\<lparr>readyState := r\<rparr>]\<rparr>"

fun step :: "lowering \<Rightarrow> state \<Rightarrow> event \<Rightarrow> state option" where
  "step L s (Tick d) =
     (if now s + d \<le> 8640000000000000 then Some (s\<lparr>now := now s + d\<rparr>) else None)"
| "step L s (LoginClick r) = Some (login_click r s)"
| "step L s (WsOpen i) =
     (if i < length (sockets s) \<and> readyState (sockets s ! i) = CONNECTING
      then Some (on_open (set_readyState i OPEN s)) else None)"
| "step L s (WsMessage i ev_data) =
     (if i < length (sockets s) \<and> readyState (sockets s ! i) = OPEN
      then Some (on_message ev_data s) else None)"
| "step L s (WsError i) = (if i < length (sockets s) then Some s else None)"
| "step L s (WsClosing i) =
     (if i < length (sockets s) \<and> readyState (sockets s ! i) = OPEN
      then Some (set_readyState i CLOSING s) else None)"
| "step L s (WsClose i) =
     (if i < length (sockets s) \<and> readyState (sockets s ! i) \<noteq> CLOSED
      then Some (set_readyState i CLOSED s) else None)"
| "step L s (SearchInput raw) = Some (on_search_input raw s)"
| "step L s SearchFocus = Some (on_search_focus s)"
| "step L s SearchBlur = Some (s\<lparr>search_focused := False\<rparr>)"
| "step L s (TimerFire h) =
     (case find (\<lambda>(h', due, v). h' = h) (timers s) of
        None \<Rightarrow> None
      | Some (h', due, v) \<Rightarrow>
          if due \<le> now s then Some (debounce_fire v (clearTimeout h s)) else None)"
| "step L s IntervalFire = Some (interval_fire s)"
| "step L s (FetchDone k out) =
     (if k < length (fetches s) then Some (fetch_done L k out s) else None)"
| "step L s (MessageInput raw) = Some (s\<lparr>messageInput := raw\<rparr>)"
| "step L s (MemberClick k) =
     (if k < length (onlineList s) then Some (member_click k s) else None)"
| "step L s ComposerSubmit = Some (composer_submit s)"

fun run :: "lowering \<Rightarrow> state \<Rightarrow> event list \<Rightarrow> state option" where
  "run L s [] = Some s"
| "run L s (e # es) = (case step L s e of None \<Rightarrow> None | Some s' \<Rightarrow> run L s' es)"

section \<open>Notions of the specification\<close>

text \<open>
  A presence entry \<^verbatim>\<open>{email, name}\<close> that can be listed: an object whose \<^verbatim>\<open>email\<close> is
  a string or is absent, \<^verbatim>\<open>null\<close> or otherwise falsy, and whose \<^verbatim>\<open>name\<close> can be
  printed.
\<close>

fun is_string :: "jsval \<Rightarrow> bool" where
  "is_string (Str s) = True"
| "is_string v = False"

definition printable :: "jsval \<Rightarrow> bool" where
  "printable v = (case to_string v of Inl e \<Rightarrow> False | Inr t \<Rightarrow> True)"

fun presence_entry :: "jsval \<Rightarrow> bool" where
  "presence_entry (Obj fs) =
     ((\<not> truthy (field fs (js ''email'')) \<or> is_string (field fs (js ''email'')))
      \<and> printable (field fs (js ''name'')))"
| "presence_entry v = False"

text \<open>The text that a value prints as.\<close>

definition text_of :: "jsval \<Rightarrow> jstring" where
  "text_of v = (case to_string v of Inl e \<Rightarrow> [] | Inr t \<Rightarrow> t)"

text \<open>
  The row of an entry: of class \<^verbatim>\<open>member-entry\<close>, showing the email and, when there
  is one, the name; and the row shown in place of an empty list.
\<close>

definition spec_row :: "jsval \<Rightarrow> node" where
  "spec_row u =
     Node (js ''member-entry'')
       (js ''<div class=\"email\">'' @ text_of (read_prop u (js ''email''))
          @ js ''</div><div class=\"name\">''
          @ (if truthy (read_prop u (js ''name'')) then text_of (read_prop u (js ''name'')) else [])
          @ js ''</div>'')
       (Some u)"

definition spec_placeholder :: node where
  "spec_placeholder = Node (js ''no-contacts'') (js ''No matching online members'') None"

text \<open>The filter argument of \<^verbatim>\<open>render\<close>: absent, or a string.\<close>

definition filter_arg :: "jstring option \<Rightarrow> jsval" where
  "filter_arg q = (case q of None \<Rightarrow> Undefined | Some f \<Rightarrow> Str f)"

text \<open>
  The entries that \<^verbatim>\<open>render(entries, filter)\<close> shows: all of them when the filter is
  absent or empty, otherwise those whose email is a non-empty string that, in lower
  case, contains the filter in lower case.
\<close>

definition spec_shown :: "lowering \<Rightarrow> jstring option \<Rightarrow> jsval \<Rightarrow> bool" where
  "spec_shown L q u =
     (case q of
        None \<Rightarrow> True
      | Some f \<Rightarrow>
          f = [] \<or>
          (case read_prop u (js ''email'') of
             Str e \<Rightarrow> e \<noteq> [] \<and> str_includes (toLowerCase L e) (toLowerCase L f)
           | _ \<Rightarrow> False))"

definition spec_render :: "lowering \<Rightarrow> jsval list \<Rightarrow> jstring option \<Rightarrow> node list" where
  "spec_render L entries q =
     (if filter (spec_shown L q) entries = [] then [spec_placeholder]
      else map spec_row (filter (spec_shown L q) entries))"

text \<open>
  Containment up to the case of the letters, for ASCII strings: two code units are the
  same letter when they are equal or are the capital and the small form of one of the
  letters \<^verbatim>\<open>A\<close> to \<^verbatim>\<open>Z\<close>; two strings are the same up to case when they are so unit
  by unit; \<open>e\<close> contains \<open>f\<close> case-insensitively when some substring of \<open>e\<close> is \<open>f\<close> up
  to case.
\<close>

definition ascii :: "jstring \<Rightarrow> bool" where
  "ascii s = list_all (\<lambda>c. c < 0x80) s"

definition upper_lower :: "(code_unit \<times> code_unit) list" where
  "upper_lower = zip (js ''ABCDEFGHIJKLMNOPQRSTUVWXYZ'') (js ''abcdefghijklmnopqrstuvwxyz'')"

definition same_letter :: "code_unit \<Rightarrow> code_unit \<Rightarrow> bool" where
  "same_letter a b \<longleftrightarrow> a = b \<or> (a, b) \<in> set upper_lower \<or> (b, a) \<in> set upper_lower"

definition same_ignoring_case :: "jstring \<Rightarrow> jstring \<Rightarrow> bool" where
  "same_ignoring_case a b = list_all2 same_letter a b"

definition contains_ci :: "jstring \<Rightarrow> jstring \<Rightarrow> bool" where
  "contains_ci e f = (\<exists>pre mid post. e = pre @ mid @ post \<and> same_ignoring_case mid f)"

text \<open>
  A table for the strings outside the fragment that leaves them as they are; it stands
  where every string at hand lies in the fragment, so that no table is consulted.
\<close>

definition no_table :: lowering where
  "no_table s = s"

text \<open>
  The frames sent on socket \<open>i\<close> once the events \<open>evs\<close> have happened from state \<open>s\<close>;
  \<open>None\<close> when they cannot happen or there is no such socket.
\<close>

definition sent_after :: "lowering \<Rightarrow> state \<Rightarrow> event list \<Rightarrow> nat \<Rightarrow> jsval list option" where
  "sent_after L s evs i =
     (case run L s evs of
        None \<Rightarrow> None
      | Some s' \<Rightarrow> if i < length (sockets s') then Some (sent (sockets s' ! i)) else None)"

text \<open>The states of the sockets once the events \<open>evs\<close> have happened from state \<open>s\<close>.\<close>

definition states_after :: "lowering \<Rightarrow> state \<Rightarrow> event list \<Rightarrow> ready_state list option" where
  "states_after L s evs =
     (case run L s evs of None \<Rightarrow> None | Some s' \<Rightarrow> Some (map readyState (sockets s')))"

subsection \<open>The connection along a run\<close>

text \<open>
  What holds of the connection in every state the page reaches: \<^verbatim>\<open>ws\<close> refers to a
  socket that exists, and once there is a socket, \<^verbatim>\<open>me\<close> is neither \<^verbatim>\<open>null\<close> nor
  \<^verbatim>\<open>undefined\<close>, so that \<^verbatim>\<open>me.email\<close> can be read.
\<close>

definition conn_inv :: "state \<Rightarrow> bool" where
  "conn_inv s \<longleftrightarrow>
     (case ws s of None \<Rightarrow> True | Some i \<Rightarrow> i < length (sockets s))
     \<and> (sockets s = [] \<or> (me s \<noteq> Null \<and> me s \<noteq> Undefined))"

text \<open>The part of the state that this invariant reads.\<close>

definition conn_view :: "state \<Rightarrow> nat \<times> nat option \<times> jsval" where
  "conn_view s = (length (sockets s), ws s, me s)"

subsection \<open>The debounce task\<close>

text \<open>
  Over a sequence of events: whether an event is the firing of a task or a change of
  the search field, the time that passes, and, starting from the query \<open>q\<close> of a
  change made \<open>el\<close> milliseconds ago, the query of the last change with the time passed
  since that change.
\<close>

fun is_fire :: "event \<Rightarrow> bool" where
  "is_fire (TimerFire h) = True"
| "is_fire ev = False"

fun is_change :: "event \<Rightarrow> bool" where
  "is_change (SearchInput raw) = True"
| "is_change ev = False"

fun ticks :: "event list \<Rightarrow> nat" where
  "ticks [] = 0"
| "ticks (Tick d # evs) = d + ticks evs"
| "ticks (ev # evs) = ticks evs"

fun last_change :: "jstring \<Rightarrow> nat \<Rightarrow> event list \<Rightarrow> jstring \<times> nat" where
  "last_change q el [] = (q, el)"
| "last_change q el (Tick d # evs) = last_change q (el + d) evs"
| "last_change q el (SearchInput raw # evs) = last_change (trim raw) 0 evs"
| "last_change q el (ev # evs) = last_change q el evs"

text \<open>
  What holds of the timers in every state the page reaches: at most one task is
  pending, and \<^verbatim>\<open>onlineDebounce\<close> holds its handle, which is not zero.
\<close>

definition timer_inv :: "state \<Rightarrow> bool" where
  "timer_inv s \<longleftrightarrow>
     length (timers s) \<le> 1
     \<and> (\<forall>t \<in> set (timers s). onlineDebounce s = Some (fst t) \<and> fst t \<noteq> 0)
     \<and> next_timer s \<noteq> 0"

text \<open>The part of the state that the task scheduling reads and writes.\<close>

definition timer_view :: "state \<Rightarrow> (nat \<times> nat \<times> jstring) list \<times> nat option \<times> nat \<times> nat" where
  "timer_view s = (timers s, onlineDebounce s, next_timer s, now s)"

section \<open>\<^verbatim>\<open>fetchOnline\<close> returns a list\<close>

text \<open>
  Claim C8. \<^verbatim>\<open>fetchOnline\<close> never throws to its caller: whatever the HTTP outcome,
  it returns a list; the empty list on a transport error and on a status that is not
  ok, and the decoded list when the status is ok and the body is a JSON array.
\<close>

theorem fetchOnline_never_throws:
  "(\<exists>list. fetchOnline out = Inr list)
   \<and> fetchOnline Rejected = Inr []
   \<and> fetchOnline (Resolved \<lparr>ok = False, json_body = b\<rparr>) = Inr []
   \<and> fetchOnline (Resolved \<lparr>ok = True, json_body = Some (Arr entries ps)\<rparr>) = Inr entries"
  by (simp add: fetchOnline_def fetchOnline_try_def fetch_api_def res_json_def
      split: sum.splits http_outcome.splits option.splits)

text \<open>
  Claim C9. When the status is ok and the body parses as JSON but is not an array,
  \<^verbatim>\<open>fetchOnline\<close> returns the empty list.
\<close>

theorem fetchOnline_not_an_array:
  assumes "\<not> isArray data"
  shows "fetchOnline (Resolved \<lparr>ok = True, json_body = Some data\<rparr>) = Inr []"
  using assms by (simp add: fetchOnline_def fetchOnline_try_def fetch_api_def res_json_def)

theorem fetchOnline_not_an_array_witness:
  "\<not> isArray (Obj [(js ''error'', Str (js ''busy''))])
   \<and> fetchOnline (Resolved \<lparr>ok = True, json_body = Some (Obj [(js ''error'', Str (js ''busy''))])\<rparr>)
       = Inr []"
  using fetchOnline_not_an_array [of "Obj [(js ''error'', Str (js ''busy''))]"] by simp

section \<open>Lower case and containment\<close>

lemma of_char_less_256: "(of_char c :: nat) < 256"
proof -
  have "(of_char c :: nat) mod 256 < 256" by simp
  then show ?thesis by (simp only: of_char_mod_256)
qed

lemma unat_of_char: "unat (of_char c :: 16 word) = of_char c"
proof -
  have "(of_char c :: 16 word) = of_nat (of_char c)" by (simp add: of_nat_of_char)
  then have "unat (of_char c :: 16 word) = (of_char c :: nat) mod 2 ^ 16"
    by (simp only: unat_of_nat) simp
  also have "\<dots> = (of_char c :: nat)"
    by (intro mod_less) (rule less_trans[OF of_char_less_256], simp)
  finally show ?thesis .
qed

lemma js_inj [simp]: "js a = js b \<longleftrightarrow> a = b"
proof -
  have "inj (of_char :: char \<Rightarrow> 16 word)"
  proof (rule injI)
    fix x y :: char
    assume "(of_char x :: 16 word) = of_char y"
    then have "unat (of_char x :: 16 word) = unat (of_char y :: 16 word)" by simp
    then have "(of_char x :: nat) = of_char y" by (simp only: unat_of_char)
    then show "x = y" by simp
  qed
  then show ?thesis by (simp add: js_def inj_map_eq_map)
qed

lemma js_Nil [simp]: "js [] = []" "js s = [] \<longleftrightarrow> s = []" "[] = js s \<longleftrightarrow> s = []"
  by (auto simp: js_def)

lemma upper_lower_keys: "distinct (map fst upper_lower)"
  unfolding upper_lower_def js_def by simp

lemma upper_lower_vals: "distinct (map snd upper_lower)"
  unfolding upper_lower_def js_def by simp

lemma upper_lower_disj: "set (map fst upper_lower) \<inter> set (map snd upper_lower) = {}"
  unfolding upper_lower_def js_def by simp

lemma upper_lower_range:
  "(k, l) \<in> set upper_lower \<Longrightarrow> 0x41 \<le> k \<and> k \<le> 0x5A \<and> l = k + 0x20"
  unfolding upper_lower_def js_def by auto

lemma capital_in_table:
  assumes "0x41 \<le> c" and "c \<le> (0x5A :: code_unit)"
  shows "(c, c + 0x20) \<in> set upper_lower"
proof -
  have "65 \<le> unat c" "unat c \<le> 90"
    using assms by (simp_all add: word_le_nat_alt)
  then have "unat c \<in> {65..<91}" by simp
  then have "unat c \<in> set [65..<91]" by (simp only: set_upt)
  with refl[of c] have "c \<in> set (map of_nat [65..<91])"
    unfolding set_map by (intro image_eqI[where x = "unat c"]) simp_all
  then show ?thesis
    unfolding upper_lower_def js_def by (auto simp: upt_rec)
qed

lemma lower_ascii_table:
  "lower_ascii c = (case map_of upper_lower c of None \<Rightarrow> c | Some l \<Rightarrow> l)"
proof (cases "0x41 \<le> c \<and> c \<le> 0x5A")
  case True
  then have "(c, c + 0x20) \<in> set upper_lower" by (simp add: capital_in_table)
  then have "map_of upper_lower c = Some (c + 0x20)"
    using map_of_is_SomeI[OF upper_lower_keys] by blast
  with True show ?thesis by (simp add: lower_ascii_def)
next
  case False
  then have "c \<notin> fst ` set upper_lower" using upper_lower_range by force
  then have "map_of upper_lower c = None" by (simp add: map_of_eq_None_iff)
  with False show ?thesis by (simp add: lower_ascii_def)
qed

lemma lower_of_upper: "(a, b) \<in> set upper_lower \<Longrightarrow> lower_ascii a = b"
  using map_of_is_SomeI[OF upper_lower_keys] by (simp add: lower_ascii_table)

lemma lower_of_lower: "(a, b) \<in> set upper_lower \<Longrightarrow> lower_ascii b = b"
proof -
  assume "(a, b) \<in> set upper_lower"
  then have "b \<in> set (map snd upper_lower)" by force
  with upper_lower_disj have "b \<notin> fst ` set upper_lower" by auto
  then have "map_of upper_lower b = None" by (simp add: map_of_eq_None_iff)
  then show ?thesis by (simp add: lower_ascii_table)
qed

lemma lower_cases:
  "lower_ascii a = a \<or> (a, lower_ascii a) \<in> set upper_lower"
  by (auto simp: lower_ascii_table split: option.splits dest: map_of_SomeD)

lemma upper_inj: "(a, c) \<in> set upper_lower \<Longrightarrow> (b, c) \<in> set upper_lower \<Longrightarrow> a = b"
  using upper_lower_range by (metis add_right_cancel)

text \<open>
  The arithmetic of \<open>lower_ascii\<close> identifies exactly the code units that are the same
  letter by the table of the letters.
\<close>

lemma same_letter_iff: "same_letter a b \<longleftrightarrow> lower_ascii a = lower_ascii b"
proof
  assume "same_letter a b"
  then show "lower_ascii a = lower_ascii b"
    unfolding same_letter_def using lower_of_upper lower_of_lower by metis
next
  assume e: "lower_ascii a = lower_ascii b"
  from lower_cases[of a] lower_cases[of b] show "same_letter a b"
    unfolding same_letter_def using e upper_inj by metis
qed

lemma same_ignoring_case_iff:
  "same_ignoring_case a b \<longleftrightarrow> map lower_ascii a = map lower_ascii b"
  unfolding same_ignoring_case_def
  by (induction a arbitrary: b) (auto simp: same_letter_iff list_all2_Cons1)

lemma lower_from_no_sigma:
  "list_all (\<lambda>c. c \<noteq> 0x3A3) s \<Longrightarrow> lower_from before s = map lower_ascii s"
  by (induction s arbitrary: before) (simp_all add: lower_unit_def)

lemma toLowerCase_ascii: "ascii s \<Longrightarrow> toLowerCase L s = map lower_ascii s"
proof -
  assume a: "ascii s"
  then have "list_all in_fragment s"
    by (auto simp: ascii_def in_fragment_def list_all_iff)
  moreover from a have "list_all (\<lambda>c. c \<noteq> 0x3A3) s"
    by (auto simp: ascii_def list_all_iff)
  ultimately show ?thesis by (simp add: toLowerCase_def lower_from_no_sigma)
qed

lemma take_eq_iff_prefix: "take (length t) s = t \<longleftrightarrow> (\<exists>post. s = t @ post)"
  by (metis append_eq_conv_conj append_take_drop_id)

lemma str_includes_iff: "str_includes s t \<longleftrightarrow> (\<exists>pre post. s = pre @ t @ post)"
proof (induction s)
  case Nil
  then show ?case by auto
next
  case (Cons c s)
  have "(\<exists>pre post. c # s = pre @ t @ post) \<longleftrightarrow>
        (\<exists>post. c # s = t @ post) \<or> (\<exists>pre post. s = pre @ t @ post)"
    by (auto simp: Cons_eq_append_conv)
  then show ?case
    using Cons.IH by (simp only: str_includes.simps take_eq_iff_prefix)
qed

lemma includes_map_iff:
  "str_includes (map lower_ascii e) (map lower_ascii f) \<longleftrightarrow> contains_ci e f"
proof
  assume "str_includes (map lower_ascii e) (map lower_ascii f)"
  then obtain p q where "p @ (map lower_ascii f @ q) = map lower_ascii e"
    unfolding str_includes_iff by auto
  then obtain pre r where e: "e = pre @ r"
    and "map lower_ascii f @ q = map lower_ascii r"
    unfolding append_eq_map_conv by blast
  then obtain mid post where "r = mid @ post" "map lower_ascii mid = map lower_ascii f"
    unfolding append_eq_map_conv by auto
  with e show "contains_ci e f"
    unfolding contains_ci_def same_ignoring_case_iff by blast
next
  assume "contains_ci e f"
  then show "str_includes (map lower_ascii e) (map lower_ascii f)"
    unfolding contains_ci_def same_ignoring_case_iff str_includes_iff
    by (metis map_append)
qed

text \<open>
  On ASCII strings, what the code tests,
  \<^verbatim>\<open>email.toLowerCase().includes(filter.toLowerCase())\<close>, is containment up to case.
\<close>

lemma includes_lower_ascii:
  "ascii e \<Longrightarrow> ascii f \<Longrightarrow>
     str_includes (toLowerCase L e) (toLowerCase L f) \<longleftrightarrow> contains_ci e f"
  by (simp add: toLowerCase_ascii includes_map_iff)

section \<open>What \<^verbatim>\<open>renderOnline\<close> shows\<close>

lemma falsy_prints: "\<not> truthy v \<Longrightarrow> \<exists>t. to_string v = Inr t"
  by (cases v) auto

lemma online_match_presence:
  assumes "presence_entry u"
  shows "online_match L (filter_arg q) u = Inr (spec_shown L q u)"
proof (cases q)
  case None
  then show ?thesis by (simp add: online_match_def filter_arg_def spec_shown_def)
next
  case (Some f)
  from assms obtain fs where u: "u = Obj fs" by (cases u) auto
  show ?thesis
  proof (cases "f = []")
    case True
    with Some show ?thesis by (simp add: online_match_def filter_arg_def spec_shown_def)
  next
    case False
    show ?thesis
    proof (cases "truthy (field fs (js ''email''))")
      case True
      with assms u obtain e where e: "field fs (js ''email'') = Str e"
        by (cases "field fs (js ''email'')") auto
      with True False Some u show ?thesis
        by (simp add: online_match_def filter_arg_def spec_shown_def read_prop_def)
    next
      case nt: False
      then have "\<not> (case field fs (js ''email'') of Str e \<Rightarrow>
          e \<noteq> [] \<and> str_includes (toLowerCase L e) (toLowerCase L f) | _ \<Rightarrow> False)"
        by (cases "field fs (js ''email'')") auto
      with nt False Some u show ?thesis
        by (simp add: online_match_def filter_arg_def spec_shown_def read_prop_def)
    qed
  qed
qed

lemma array_filter_total:
  assumes "\<forall>u\<in>set es. p u = Inr (P u)"
  shows "array_filter p es = Inr (filter P es)"
  using assms by (induction es) auto

lemma member_entry_presence:
  assumes "presence_entry u"
  shows "member_entry u = Inr (spec_row u)"
proof -
  from assms obtain fs where u: "u = Obj fs" by (cases u) auto
  let ?em = "field fs (js ''email'')" and ?nm = "field fs (js ''name'')"
  from assms u have "\<exists>t. to_string ?em = Inr t"
    using falsy_prints[of ?em] by (cases ?em) auto
  then obtain a where a: "to_string ?em = Inr a" by blast
  from assms u obtain b where b: "to_string ?nm = Inr b"
    by (auto simp: printable_def split: sum.splits)
  show ?thesis
    using a b u
    by (simp add: member_entry_def entry_html_def spec_row_def read_prop_def text_of_def js_def)
qed

lemma append_entries_presence:
  assumes "\<forall>u\<in>set us. presence_entry u"
  shows "append_entries kids us = (kids @ map spec_row us, None)"
  using assms
  by (induction us arbitrary: kids) (simp_all add: member_entry_presence)

lemma placeholder_eq: "no_contacts = spec_placeholder"
  by (simp add: no_contacts_def spec_placeholder_def)

lemma renderOnline_presence:
  assumes "\<forall>u\<in>set entries. presence_entry u"
  shows "renderOnline L entries (filter_arg q) = (spec_render L entries q, None)"
proof -
  let ?kept = "filter (spec_shown L q) entries"
  have f: "array_filter (online_match L (filter_arg q)) entries = Inr ?kept"
    using assms by (intro array_filter_total) (simp add: online_match_presence)
  have "\<forall>u\<in>set ?kept. presence_entry u" using assms by simp
  from append_entries_presence[OF this, of "[]"] show ?thesis
    by (simp add: renderOnline_def f spec_render_def placeholder_eq)
qed

text \<open>
  The claim C7 as the specification words it, that \<^verbatim>\<open>render\<close> keeps exactly the
  entries whose email contains the filter case-insensitively, fails where lower-casing
  depends on the position of a letter. The email \<^verbatim>\<open>a\<close>\<open>\<Sigma>\<close> (code units 0x61, 0x3A3)
  contains the filter \<open>\<Sigma>\<close> as it stands; but \<^verbatim>\<open>toLowerCase\<close> turns the email into
  \<^verbatim>\<open>a\<close> followed by the final sigma U+03C2, the capital sigma standing at the end of a
  word, and the filter into \<open>\<sigma>\<close> U+03C3, so that \<^verbatim>\<open>includes\<close> fails and the
  placeholder row is all that is rendered.
\<close>

theorem renderOnline_final_sigma_counterexample:
  "str_includes [0x61, 0x3A3] [0x3A3]
   \<and> toLowerCase no_table [0x61, 0x3A3] = [0x61, 0x3C2]
   \<and> toLowerCase no_table [0x3A3] = [0x3C3]
   \<and> renderOnline no_table [Obj [(js ''email'', Str [0x61, 0x3A3])]] (Str [0x3A3])
       = ([Node (js ''no-contacts'') (js ''No matching online members'') None], None)"
  by (simp add: renderOnline_def online_match_def toLowerCase_def in_fragment_def
      lower_unit_def lower_ascii_def meets_cased_def cased_def case_ignorable_def
      field_def no_contacts_def)

text \<open>
  Claim C7, amended. For every list of presence entries and every filter, absent or a
  string, \<^verbatim>\<open>renderOnline\<close> ends without an exception and leaves in \<^verbatim>\<open>onlineList\<close>
  one member row per entry that is shown, in the order of the list, or, when no entry
  is shown, the single row of class \<^verbatim>\<open>no-contacts\<close> with the text
  \<^verbatim>\<open>No matching online members\<close>. Every entry is shown when the filter is absent or
  empty; under any other filter an entry is shown when its email is a non-empty string
  whose lower case (by \<^verbatim>\<open>toLowerCase\<close>) contains the lower case of the filter. When
  the email and the filter are ASCII, that is exactly when the email contains the filter
  up to the case of the letters.
\<close>

theorem renderOnline_shows_matching:
  assumes "\<forall>u\<in>set entries. presence_entry u"
  shows "renderOnline L entries (filter_arg q)
         = (if filter (spec_shown L q) entries = []
            then [Node (js ''no-contacts'') (js ''No matching online members'') None]
            else map spec_row (filter (spec_shown L q) entries), None)
       \<and> spec_shown L None u \<and> spec_shown L (Some []) u
       \<and> (read_prop u (js ''email'') = Str e \<and> ascii e \<and> ascii f
            \<longrightarrow> (spec_shown L (Some f) u \<longleftrightarrow> contains_ci e f))"
proof -
  have "contains_ci e []" by (auto simp: contains_ci_def same_ignoring_case_def)
  moreover have "\<not> contains_ci [] f" if "f \<noteq> []"
    using that by (auto simp: contains_ci_def same_ignoring_case_def)
  ultimately have "read_prop u (js ''email'') = Str e \<and> ascii e \<and> ascii f
            \<longrightarrow> (spec_shown L (Some f) u \<longleftrightarrow> contains_ci e f)"
    by (auto simp: spec_shown_def includes_lower_ascii)
  then show ?thesis
    using renderOnline_presence[OF assms, of L q]
    by (simp add: spec_render_def spec_placeholder_def spec_shown_def)
qed

theorem renderOnline_shows_matching_witness:
  "presence_entry (Obj [(js ''email'', Str (js ''alice@x.com''))])
   \<and> presence_entry (Obj [(js ''email'', Str (js ''bob@x.com'')), (js ''name'', Str (js ''Bob''))])
   \<and> renderOnline no_table
        [Obj [(js ''email'', Str (js ''alice@x.com''))],
         Obj [(js ''email'', Str (js ''bob@x.com'')), (js ''name'', Str (js ''Bob''))]]
        (Str (js ''AL''))
      = ([Node (js ''member-entry'')
            (js ''<div class=\"email\">alice@x.com</div><div class=\"name\"></div>'')
            (Some (Obj [(js ''email'', Str (js ''alice@x.com''))]))], None)
   \<and> contains_ci (js ''alice@x.com'') (js ''AL'')
   \<and> \<not> contains_ci (js ''bob@x.com'') (js ''AL'')"
proof -
  let ?a = "Obj [(js ''email'', Str (js ''alice@x.com''))]"
  let ?b = "Obj [(js ''email'', Str (js ''bob@x.com'')), (js ''name'', Str (js ''Bob''))]"
  have asc: "ascii (js ''alice@x.com'')" "ascii (js ''bob@x.com'')" "ascii (js ''AL'')"
    by (simp_all add: ascii_def js_def)
  have low: "toLowerCase no_table (js ''alice@x.com'') = js ''alice@x.com''"
    "toLowerCase no_table (js ''bob@x.com'') = js ''bob@x.com''"
    "toLowerCase no_table (js ''AL'') = js ''al''"
    by (simp_all add: toLowerCase_ascii asc) (simp_all add: js_def lower_ascii_def)
  have inc: "str_includes (js ''alice@x.com'') (js ''al'')"
    "\<not> str_includes (js ''bob@x.com'') (js ''al'')"
    by (simp_all add: js_def)
  have sh: "spec_shown no_table (Some (js ''AL'')) ?a"
    "\<not> spec_shown no_table (Some (js ''AL'')) ?b"
    by (simp_all add: spec_shown_def read_prop_def field_def low inc)
  have pe: "presence_entry ?a" "presence_entry ?b"
    by (simp_all add: field_def printable_def)
  have row: "spec_row ?a = Node (js ''member-entry'')
            (js ''<div class=\"email\">alice@x.com</div><div class=\"name\"></div>'') (Some ?a)"
    by (simp add: spec_row_def read_prop_def field_def text_of_def js_def)
  have ra: "read_prop ?a (js ''email'') = Str (js ''alice@x.com'')"
    "read_prop ?b (js ''email'') = Str (js ''bob@x.com'')"
    by (simp_all add: read_prop_def field_def)
  from renderOnline_shows_matching[of "[?a, ?b]" no_table "Some (js ''AL'')" ?a "js ''alice@x.com''" "js ''AL''"]
    renderOnline_shows_matching[of "[?a, ?b]" no_table "Some (js ''AL'')" ?b "js ''bob@x.com''" "js ''AL''"]
  show ?thesis
    using pe sh row ra asc by (simp add: filter_arg_def)
qed

text \<open>
  Claim C10. In a list of presence entries, an entry whose \<^verbatim>\<open>email\<close> is missing or
  empty gets no row under any non-empty filter, and gets its row, the one that
  captures it, under the empty filter and under an absent one.
\<close>

theorem renderOnline_drops_without_email:
  assumes entries: "\<forall>x\<in>set entries. presence_entry x"
    and u: "u \<in> set entries"
    and email: "get_prop u (js ''email'') = Inr Undefined \<or> get_prop u (js ''email'') = Inr (Str [])"
    and f: "f \<noteq> []"
  shows "Some u \<notin> captured ` set (fst (renderOnline L entries (Str f)))
       \<and> spec_row u \<in> set (fst (renderOnline L entries (Str [])))
       \<and> spec_row u \<in> set (fst (renderOnline L entries Undefined))
       \<and> captured (spec_row u) = Some u"
proof -
  from email have e: "read_prop u (js ''email'') = Undefined \<or> read_prop u (js ''email'') = Str []"
    by (auto simp: read_prop_def)
  have not_shown: "\<not> spec_shown L (Some f) u"
    using f e by (auto simp: spec_shown_def)
  have all1: "filter (spec_shown L (Some [])) entries = entries"
    by (simp add: spec_shown_def)
  have all2: "filter (spec_shown L None) entries = entries"
    by (simp add: spec_shown_def)
  from u have ne: "entries \<noteq> []" by auto
  have cap: "captured (spec_row x) = Some x" for x by (simp add: spec_row_def)
  have "Some u \<notin> captured ` set (spec_render L entries (Some f))"
    using not_shown by (auto simp: spec_render_def spec_placeholder_def cap)
  then have A: "Some u \<notin> captured ` set (fst (renderOnline L entries (Str f)))"
    using renderOnline_presence[OF entries, of L "Some f"] by (simp add: filter_arg_def)
  have B: "spec_row u \<in> set (fst (renderOnline L entries (Str [])))"
    using renderOnline_presence[OF entries, of L "Some []"] ne all1 u
    by (simp add: filter_arg_def spec_render_def)
  have C: "spec_row u \<in> set (fst (renderOnline L entries Undefined))"
    using renderOnline_presence[OF entries, of L None] ne all2 u
    by (simp add: filter_arg_def spec_render_def)
  from A B C cap show ?thesis by blast
qed

theorem renderOnline_drops_without_email_witness:
  "presence_entry (Obj [(js ''name'', Str (js ''Al''))])
   \<and> presence_entry (Obj [(js ''email'', Null)])
   \<and> presence_entry (Obj [(js ''email'', Str (js ''bob@x.com''))])
   \<and> (get_prop (Obj [(js ''name'', Str (js ''Al''))]) (js ''email'') = Inr Undefined
        \<or> get_prop (Obj [(js ''name'', Str (js ''Al''))]) (js ''email'') = Inr (Str []))
   \<and> js ''b'' \<noteq> []
   \<and> Some (Obj [(js ''name'', Str (js ''Al''))]) \<notin> captured ` set (fst (renderOnline no_table
         [Obj [(js ''name'', Str (js ''Al''))], Obj [(js ''email'', Null)],
          Obj [(js ''email'', Str (js ''bob@x.com''))]] (Str (js ''b''))))
   \<and> Node (js ''member-entry'')
        (js ''<div class=\"email\">undefined</div><div class=\"name\">Al</div>'')
        (Some (Obj [(js ''name'', Str (js ''Al''))]))
      \<in> set (fst (renderOnline no_table
         [Obj [(js ''name'', Str (js ''Al''))], Obj [(js ''email'', Null)],
          Obj [(js ''email'', Str (js ''bob@x.com''))]] (Str [])))"
proof -
  let ?u = "Obj [(js ''name'', Str (js ''Al''))]"
  let ?n = "Obj [(js ''email'', Null)]"
  let ?b = "Obj [(js ''email'', Str (js ''bob@x.com''))]"
  have pe: "presence_entry ?u" "presence_entry ?n" "presence_entry ?b"
    by (simp_all add: field_def printable_def)
  have em: "get_prop ?u (js ''email'') = Inr Undefined" by (simp add: field_def)
  have row: "spec_row ?u = Node (js ''member-entry'')
        (js ''<div class=\"email\">undefined</div><div class=\"name\">Al</div>'') (Some ?u)"
    by (simp add: spec_row_def read_prop_def field_def text_of_def js_def)
  have ne: "js ''b'' \<noteq> []" by (simp add: js_def)
  from renderOnline_drops_without_email[of "[?u, ?n, ?b]" ?u "js ''b''" no_table]
  show ?thesis using pe em row ne by simp
qed

section \<open>Properties of single listeners\<close>

lemmas page_eval =
  sent_after_def states_after_def page_load_def initial_def connect_def set_readyState_def
  on_open_def ws_send_def join_envelope_def field_def fetchAndRenderOnline_def userInfo_text_def
  read_prop_def ws_is_open_def login_click_def login_body_def set_field_def
  string_of_nat.simps[of 0]

lemmas search_eval =
  on_search_input_def setTimeout_debounce_def trim_def is_space_def clearTimeout_def
  debounce_fire_def search_envelope_def

text \<open>
  The claim C2 as the specification words it, that the search envelope is
  \<^verbatim>\<open>{type:"search", query, fromEmail, ts}\<close>, fails: for the identity \<^verbatim>\<open>a@x.com\<close>, on an
  open connection, the envelope sent for the query \<^verbatim>\<open>al\<close> carries the sender under
  \<^verbatim>\<open>from\<close> and has neither \<^verbatim>\<open>fromEmail\<close> nor \<^verbatim>\<open>ts\<close>.
\<close>

theorem search_envelope_shape_counterexample:
  "sent_after no_table
     (page_load 0 (Some (Parsed (Obj [(js ''email'', Str (js ''a@x.com'')),
                                      (js ''name'', Str (js ''Al''))]))))
     [WsOpen 0, SearchInput (js ''al''), Tick 180, TimerFire 2] 0
   = Some [Obj [(js ''type'', Str (js ''join'')), (js ''email'', Str (js ''a@x.com'')),
                (js ''name'', Str (js ''Al'')), (js ''ts'', Num (js ''0''))],
           Obj [(js ''type'', Str (js ''search'')), (js ''query'', Str (js ''al'')),
                (js ''from'', Str (js ''a@x.com''))]]
   \<and> get_prop (Obj [(js ''type'', Str (js ''search'')), (js ''query'', Str (js ''al'')),
                    (js ''from'', Str (js ''a@x.com''))]) (js ''fromEmail'') = Inr Undefined
   \<and> get_prop (Obj [(js ''type'', Str (js ''search'')), (js ''query'', Str (js ''al'')),
                    (js ''from'', Str (js ''a@x.com''))]) (js ''ts'') = Inr Undefined"
  by (simp add: page_eval search_eval js_def)

text \<open>
  Claim C2, amended. When the debounce task fires while the connection is open, exactly
  one frame is sent on it, \<^verbatim>\<open>{type:"search", query: v, from: me.email}\<close>: the sender is
  carried in the field \<^verbatim>\<open>from\<close> (left out when \<^verbatim>\<open>me.email\<close> is undefined), and there is
  no field \<^verbatim>\<open>fromEmail\<close> and no timestamp. (Were \<^verbatim>\<open>me\<close> \<^verbatim>\<open>null\<close>, the read of
  \<^verbatim>\<open>me.email\<close> would end the task with nothing done; no state with a socket has such a
  \<^verbatim>\<open>me\<close>, see \<open>conn_inv\<close>.)
\<close>

theorem debounce_fire_sends_search_from:
  assumes "ws s = Some i" and "i < length (sockets s)" and "readyState (sockets s ! i) = OPEN"
  shows "case get_prop (me s) (js ''email'') of
           Inl e \<Rightarrow> debounce_fire v s = s
         | Inr em \<Rightarrow>
             (\<exists>frame. sockets (debounce_fire v s)
                 = (sockets s)[i := (sockets s ! i)\<lparr>sent := sent (sockets s ! i) @ [frame]\<rparr>]
               \<and> frame = Obj ([(js ''type'', Str (js ''search'')), (js ''query'', Str v)]
                          @ (if em = Undefined then [] else [(js ''from'', to_json em)]))
               \<and> get_prop frame (js ''from'') = Inr (if em = Undefined then Undefined else to_json em)
               \<and> get_prop frame (js ''fromEmail'') = Inr Undefined
               \<and> get_prop frame (js ''ts'') = Inr Undefined)"
  using assms
  by (simp add: debounce_fire_def ws_is_open_def ws_send_def search_envelope_def
      fetchAndRenderOnline_def field_def split: sum.splits)

theorem debounce_fire_sends_search_from_witness:
  "ws (set_readyState 0 OPEN (page_load 0 (Some (Parsed (Obj [(js ''email'', Str (js ''a@x.com''))]))))) = Some 0
   \<and> 0 < length (sockets (set_readyState 0 OPEN (page_load 0 (Some (Parsed (Obj [(js ''email'', Str (js ''a@x.com''))]))))))
   \<and> readyState (sockets (set_readyState 0 OPEN (page_load 0 (Some (Parsed (Obj [(js ''email'', Str (js ''a@x.com''))]))))) ! 0) = OPEN
   \<and> sockets (debounce_fire (js ''al'') (set_readyState 0 OPEN (page_load 0 (Some (Parsed (Obj [(js ''email'', Str (js ''a@x.com''))]))))))
       = [\<lparr>readyState = OPEN, sent = [Obj [(js ''type'', Str (js ''search'')),
            (js ''query'', Str (js ''al'')), (js ''from'', Str (js ''a@x.com''))]]\<rparr>]"
  using debounce_fire_sends_search_from
    [of "set_readyState 0 OPEN (page_load 0 (Some (Parsed (Obj [(js ''email'', Str (js ''a@x.com''))]))))"
        0 "js ''al''"]
  by (simp add: page_eval)

text \<open>
  The claim C3, that \<^verbatim>\<open>connect\<close> does nothing for an identity with an empty or absent
  email, fails: a stored record with the email \<^verbatim>\<open>""\<close> is restored, a socket is opened
  for it, and the join envelope with that email is sent when the socket opens; and
  \<^verbatim>\<open>connect\<close> on the page where nobody is logged in (\<^verbatim>\<open>me.email\<close> is \<^verbatim>\<open>null\<close>) opens a
  socket as well.
\<close>

theorem connect_empty_email_counterexample:
  "get_prop (Obj [(js ''email'', Str [])]) (js ''email'') = Inr (Str [])
   \<and> \<not> truthy (Str [])
   \<and> sockets (page_load 0 (Some (Parsed (Obj [(js ''email'', Str [])]))))
       = [\<lparr>readyState = CONNECTING, sent = []\<rparr>]
   \<and> sent_after no_table (page_load 0 (Some (Parsed (Obj [(js ''email'', Str [])])))) [WsOpen 0] 0
       = Some [Obj [(js ''type'', Str (js ''join'')), (js ''email'', Str []),
                    (js ''ts'', Num (js ''0''))]]
   \<and> get_prop (me (initial 0 None)) (js ''email'') = Inr Null
   \<and> \<not> truthy Null
   \<and> sockets (connect (initial 0 None)) = [\<lparr>readyState = CONNECTING, sent = []\<rparr>]"
  by (simp add: page_eval js_def)

text \<open>
  Claim C3, amended. \<^verbatim>\<open>connect\<close> does not look at the identity: in every state it opens
  a new socket and makes it the current one. The session restore reaches it exactly
  when the stored text parses and the line for \<^verbatim>\<open>userInfo\<close> can be made from the
  parsed value, whatever its email; then there is one socket, and when it opens the one
  frame sent is the join envelope with the value's email and name (each left out when
  absent). When the line cannot be made, no socket is opened.
\<close>

theorem connect_always_opens:
  assumes "t0 \<le> 8640000000000000"
  shows "sockets (connect s) = sockets s @ [\<lparr>readyState = CONNECTING, sent = []\<rparr>]
   \<and> ws (connect s) = Some (length (sockets s))
   \<and> (case userInfo_text v of
        Inl e \<Rightarrow> sockets (page_load t0 (Some (Parsed v))) = []
      | Inr line \<Rightarrow>
          sockets (page_load t0 (Some (Parsed v))) = [\<lparr>readyState = CONNECTING, sent = []\<rparr>]
          \<and> ws (page_load t0 (Some (Parsed v))) = Some 0
          \<and> sent_after L (page_load t0 (Some (Parsed v))) [WsOpen 0] 0
              = Some [to_json (Obj [(js ''type'', Str (js ''join'')),
                        (js ''email'', read_prop v (js ''email'')),
                        (js ''name'', read_prop v (js ''name'')),
                        (js ''ts'', Num (string_of_nat t0))])])"
proof (cases "userInfo_text v")
  case (Inl e)
  then show ?thesis by (simp add: page_load_def initial_def connect_def)
next
  case (Inr line)
  then have "\<exists>x. get_prop v (js ''email'') = Inr x"
    by (cases v) (simp_all add: userInfo_text_def)
  then obtain x where x: "get_prop v (js ''email'') = Inr x" by blast
  with Inr show ?thesis
    by (simp add: page_load_def initial_def connect_def sent_after_def set_readyState_def
        on_open_def ws_send_def join_envelope_def fetchAndRenderOnline_def read_prop_def)
qed

theorem connect_always_opens_witness:
  "(0::nat) \<le> 8640000000000000
   \<and> userInfo_text (Obj [(js ''email'', Str [])]) = Inr (js ''undefined ()'')
   \<and> sockets (page_load 0 (Some (Parsed (Obj [(js ''email'', Str [])]))))
       = [\<lparr>readyState = CONNECTING, sent = []\<rparr>]
   \<and> sent_after no_table (page_load 0 (Some (Parsed (Obj [(js ''email'', Str [])])))) [WsOpen 0] 0
       = Some [Obj [(js ''type'', Str (js ''join'')), (js ''email'', Str []),
                    (js ''ts'', Num (js ''0''))]]
   \<and> userInfo_text Null = Inl TypeError
   \<and> sockets (page_load 0 (Some (Parsed Null))) = []"
proof -
  have a: "userInfo_text (Obj [(js ''email'', Str [])]) = Inr (js ''undefined ()'')"
    by (simp add: userInfo_text_def read_prop_def field_def js_def)
  have b: "userInfo_text Null = Inl TypeError" by (simp add: userInfo_text_def)
  have c: "to_json (Obj [(js ''type'', Str (js ''join'')),
                        (js ''email'', read_prop (Obj [(js ''email'', Str [])]) (js ''email'')),
                        (js ''name'', read_prop (Obj [(js ''email'', Str [])]) (js ''name'')),
                        (js ''ts'', Num (string_of_nat 0))])
       = Obj [(js ''type'', Str (js ''join'')), (js ''email'', Str []), (js ''ts'', Num (js ''0''))]"
    by (simp add: read_prop_def field_def string_of_nat.simps[of 0] js_def)
  from connect_always_opens[of 0 "initial 0 None" "Obj [(js ''email'', Str [])]" no_table]
  have d: "sockets (page_load 0 (Some (Parsed (Obj [(js ''email'', Str [])]))))
             = [\<lparr>readyState = CONNECTING, sent = []\<rparr>]"
    "sent_after no_table (page_load 0 (Some (Parsed (Obj [(js ''email'', Str [])])))) [WsOpen 0] 0
       = Some [Obj [(js ''type'', Str (js ''join'')), (js ''email'', Str []),
                    (js ''ts'', Num (js ''0''))]]"
    by (simp_all add: a c del: to_json.simps)
  from connect_always_opens[of 0 "initial 0 None" Null no_table]
  have e: "sockets (page_load 0 (Some (Parsed Null))) = []"
    by (simp add: b)
  from a b d e show ?thesis by simp
qed

text \<open>
  The claim C4, that a submission while the connection is not open leaves the input
  populated, fails: with the text \<^verbatim>\<open>hello\<close> in the input and the socket still
  connecting, the submission alerts \<^verbatim>\<open>Not connected to server\<close> and empties the input.
\<close>

theorem composer_keeps_input_counterexample:
  "messageInput ((page_load 0 (Some (Parsed (Obj [(js ''email'', Str (js ''a@x.com''))]))))
       \<lparr>messageInput := js ''hello''\<rparr>) = js ''hello''
   \<and> \<not> ws_is_open ((page_load 0 (Some (Parsed (Obj [(js ''email'', Str (js ''a@x.com''))]))))
       \<lparr>messageInput := js ''hello''\<rparr>)
   \<and> alerts (composer_submit ((page_load 0 (Some (Parsed (Obj [(js ''email'', Str (js ''a@x.com''))]))))
       \<lparr>messageInput := js ''hello''\<rparr>))
       = [Alert (js ''Not connected to server'')]
   \<and> messageInput (composer_submit ((page_load 0 (Some (Parsed (Obj [(js ''email'', Str (js ''a@x.com''))]))))
       \<lparr>messageInput := js ''hello''\<rparr>)) = []"
  by (simp add: page_eval composer_submit_def trim_def is_space_def js_def)

text \<open>
  Claim C4, amended. For every identity with a non-empty email and every message text
  that is not empty once trimmed, a submission while the connection is not open
  reports \<^verbatim>\<open>Not connected to server\<close>, sends nothing, and clears the message input;
  nothing else changes.
\<close>

theorem composer_not_open_clears_input:
  assumes "get_prop (me s) (js ''email'') = Inr em" and "truthy em"
    and "trim (messageInput s) \<noteq> []" and "\<not> ws_is_open s"
  shows "composer_submit s
         = s\<lparr>alerts := alerts s @ [Alert (js ''Not connected to server'')], messageInput := []\<rparr>"
  using assms by (simp add: composer_submit_def)

theorem composer_not_open_clears_input_witness:
  "get_prop (me ((page_load 0 (Some (Parsed (Obj [(js ''email'', Str (js ''a@x.com''))]))))
        \<lparr>messageInput := js ''hello''\<rparr>)) (js ''email'') = Inr (Str (js ''a@x.com''))
   \<and> truthy (Str (js ''a@x.com''))
   \<and> trim (messageInput ((page_load 0 (Some (Parsed (Obj [(js ''email'', Str (js ''a@x.com''))]))))
        \<lparr>messageInput := js ''hello''\<rparr>)) \<noteq> []
   \<and> \<not> ws_is_open ((page_load 0 (Some (Parsed (Obj [(js ''email'', Str (js ''a@x.com''))]))))
        \<lparr>messageInput := js ''hello''\<rparr>)
   \<and> messageInput (composer_submit ((page_load 0 (Some (Parsed (Obj [(js ''email'', Str (js ''a@x.com''))]))))
        \<lparr>messageInput := js ''hello''\<rparr>)) = []
   \<and> alerts (composer_submit ((page_load 0 (Some (Parsed (Obj [(js ''email'', Str (js ''a@x.com''))]))))
        \<lparr>messageInput := js ''hello''\<rparr>)) = [Alert (js ''Not connected to server'')]
   \<and> sockets (composer_submit ((page_load 0 (Some (Parsed (Obj [(js ''email'', Str (js ''a@x.com''))]))))
        \<lparr>messageInput := js ''hello''\<rparr>))
       = [\<lparr>readyState = CONNECTING, sent = []\<rparr>]"
proof -
  let ?s = "(page_load 0 (Some (Parsed (Obj [(js ''email'', Str (js ''a@x.com''))]))))
        \<lparr>messageInput := js ''hello''\<rparr>"
  have h: "get_prop (me ?s) (js ''email'') = Inr (Str (js ''a@x.com''))"
    "truthy (Str (js ''a@x.com''))" "trim (messageInput ?s) \<noteq> []" "\<not> ws_is_open ?s"
    by (simp_all add: page_eval trim_def is_space_def js_def)
  have p: "sockets ?s = [\<lparr>readyState = CONNECTING, sent = []\<rparr>]" "alerts ?s = []"
    by (simp_all add: page_eval)
  from composer_not_open_clears_input[of ?s "Str (js ''a@x.com'')"] h p
  show ?thesis by simp
qed



section \<open>Two connections\<close>

text \<open>
  Claim C1 fails for a connection that is no longer the value of \<^verbatim>\<open>ws\<close> when it
  opens: the \<^verbatim>\<open>open\<close> listener sends on the socket that \<^verbatim>\<open>ws\<close> refers to at that
  moment, not on the socket that has opened. After two logins one after the other (the
  login button pressed twice before the first answer has come) there are two sockets,
  and \<^verbatim>\<open>ws\<close> is the second. When the second opens and then the first, both are open,
  nothing has been sent on the first, and two join envelopes have been sent on the
  second. When the first opens before the second, the \<^verbatim>\<open>send\<close> of its listener fails
  on the second socket, which is still connecting, and the first socket is open with
  nothing sent on it.
\<close>

theorem join_on_shared_ws:
  "states_after no_table (page_load 0 None)
     [LoginClick (Body (Obj [(js ''email'', Str (js ''a@x.com''))])),
      LoginClick (Body (Obj [(js ''email'', Str (js ''a@x.com''))])),
      WsOpen 1, WsOpen 0] = Some [OPEN, OPEN]
   \<and> sent_after no_table (page_load 0 None)
     [LoginClick (Body (Obj [(js ''email'', Str (js ''a@x.com''))])),
      LoginClick (Body (Obj [(js ''email'', Str (js ''a@x.com''))])),
      WsOpen 1, WsOpen 0] 0 = Some []
   \<and> sent_after no_table (page_load 0 None)
     [LoginClick (Body (Obj [(js ''email'', Str (js ''a@x.com''))])),
      LoginClick (Body (Obj [(js ''email'', Str (js ''a@x.com''))])),
      WsOpen 1, WsOpen 0] 1
     = Some [Obj [(js ''type'', Str (js ''join'')), (js ''email'', Str (js ''a@x.com'')),
                  (js ''name'', Str (js ''a'')), (js ''ts'', Num (js ''0''))],
             Obj [(js ''type'', Str (js ''join'')), (js ''email'', Str (js ''a@x.com'')),
                  (js ''name'', Str (js ''a'')), (js ''ts'', Num (js ''0''))]]
   \<and> states_after no_table (page_load 0 None)
     [LoginClick (Body (Obj [(js ''email'', Str (js ''a@x.com''))])),
      LoginClick (Body (Obj [(js ''email'', Str (js ''a@x.com''))])),
      WsOpen 0] = Some [OPEN, CONNECTING]
   \<and> sent_after no_table (page_load 0 None)
     [LoginClick (Body (Obj [(js ''email'', Str (js ''a@x.com''))])),
      LoginClick (Body (Obj [(js ''email'', Str (js ''a@x.com''))])),
      WsOpen 0] 0 = Some []"
  by (simp add: page_eval js_def)

section \<open>The connection along a run: invariant\<close>

lemma conn_inv_view: "conn_view s' = conn_view s \<Longrightarrow> conn_inv s \<Longrightarrow> conn_inv s'"
  by (auto simp: conn_view_def conn_inv_def split: option.splits)

lemma ws_send_conn_view: "ws_send fr s = Inr s' \<Longrightarrow> conn_view s' = conn_view s"
  by (auto simp: ws_send_def conn_view_def split: option.splits ready_state.splits)

lemma ws_send_or_same_conn:
  "conn_view (case ws_send fr s of Inl e \<Rightarrow> s | Inr s' \<Rightarrow> s') = conn_view s"
  by (cases "ws_send fr s") (simp_all add: ws_send_conn_view)

lemma fetch_conn_view [simp]: "conn_view (fetchAndRenderOnline f s) = conn_view s"
  by (simp add: conn_view_def fetchAndRenderOnline_def)

lemma debounce_fire_conn_view: "conn_view (debounce_fire v s) = conn_view s"
  by (simp add: debounce_fire_def ws_send_or_same_conn split: sum.splits)

lemma on_open_conn_view: "conn_view (on_open s) = conn_view s"
  by (auto simp: on_open_def split: sum.splits dest: ws_send_conn_view)

lemma composer_conn_view: "conn_view (composer_submit s) = conn_view s"
proof -
  have a: "conn_view (s'\<lparr>messageInput := x\<rparr>) = conn_view s'" for s' x
    by (simp add: conn_view_def)
  have b: "conn_view (s\<lparr>alerts := x\<rparr>) = conn_view s" for x
    by (simp add: conn_view_def)
  show ?thesis
    by (simp add: composer_submit_def Let_def a b ws_send_or_same_conn split: sum.splits)
qed

lemma on_message_conn_view: "conn_view (on_message d s) = conn_view s"
  by (auto simp: on_message_def on_message_try_def addMessage_def conn_view_def
      fetchAndRenderOnline_def split: sum.splits parsed.splits if_splits)

lemma misc_conn_view:
  "conn_view (on_search_focus s) = conn_view s"
  "conn_view (interval_fire s) = conn_view s"
  "conn_view (fetch_done L k out s) = conn_view s"
  "conn_view (member_click k s) = conn_view s"
  "conn_view (set_readyState i rs s) = conn_view s"
  "conn_view (clearTimeout h s) = conn_view s"
  "conn_view (on_search_input raw s) = conn_view s"
  by (auto simp: on_search_focus_def interval_fire_def fetch_done_def member_click_def
      set_readyState_def conn_view_def fetchAndRenderOnline_def clearTimeout_def
      on_search_input_def setTimeout_debounce_def Let_def
      split: sum.splits option.splits)

lemma set_prop_defined: "set_prop m k v = Inr m' \<Longrightarrow> m' \<noteq> Null \<and> m' \<noteq> Undefined"
  by (cases m) auto

lemma login_body_conn_inv:
  assumes "conn_inv s" and "login_body data s = (s', r)"
  shows "conn_inv s'"
proof (cases "get_prop data (js ''email'')")
  case (Inl e)
  with assms show ?thesis by (simp add: login_body_def)
next
  case em: (Inr em)
  show ?thesis
  proof (cases "set_prop (me s) (js ''email'') em")
    case (Inl e)
    with assms em show ?thesis by (simp add: login_body_def)
  next
    case m1: (Inr m1)
    note d1 = set_prop_defined[OF m1]
    have k1: "conn_inv (s\<lparr>me := m1\<rparr>)"
      using assms(1) d1 by (auto simp: conn_inv_def split: option.splits)
    let ?nm = "if truthy (read_prop data (js ''display_name''))
               then Inr (read_prop data (js ''display_name'')) else split_at_first em"
    show ?thesis
    proof (cases ?nm)
      case (Inl e)
      with assms(2) em m1 k1 show ?thesis by (auto simp: login_body_def)
    next
      case nm: (Inr nm)
      show ?thesis
      proof (cases "set_prop m1 (js ''name'') nm")
        case (Inl e)
        with assms(2) em m1 nm k1 show ?thesis by (auto simp: login_body_def)
      next
        case m2: (Inr m2)
        note d2 = set_prop_defined[OF m2]
        let ?s2 = "s\<lparr>me := m2, chatX_user := Some (Parsed (to_json m2)), loginModal_hidden := True\<rparr>"
        have k2: "conn_inv ?s2"
          using assms(1) d2 by (auto simp: conn_inv_def split: option.splits)
        show ?thesis
        proof (cases "userInfo_text m2")
          case (Inl e)
          with assms(2) em m1 nm m2 k2 show ?thesis by (auto simp: login_body_def Let_def)
        next
          case (Inr t)
          have "conn_inv (connect (?s2\<lparr>userInfo := t\<rparr>))"
            using d2 by (simp add: conn_inv_def connect_def)
          with assms(2) em m1 nm m2 Inr show ?thesis by (auto simp: login_body_def Let_def)
        qed
      qed
    qed
  qed
qed

lemma login_click_conn_inv:
  assumes inv: "conn_inv s"
  shows "conn_inv (login_click r s)"
proof -
  have al: "conn_inv (t\<lparr>alerts := x\<rparr>)" if "conn_inv t" for t x
    using _ that by (rule conn_inv_view) (simp add: conn_view_def)
  show ?thesis
  proof (cases r)
    case (Body data)
    obtain s' e where b: "login_body data s = (s', e)" by (cases "login_body data s")
    from login_body_conn_inv[OF inv b] have "conn_inv s'" .
    with al[of s'] Body b show ?thesis
      by (cases e) (simp_all add: login_click_def)
  qed (simp_all add: login_click_def al inv)
qed

lemma conn_inv_step:
  assumes "step L s ev = Some s'" and inv: "conn_inv s"
  shows "conn_inv s'"
proof (cases ev)
  case (LoginClick r)
  with assms show ?thesis by (auto intro: login_click_conn_inv)
next
  case (Tick d)
  with assms have "conn_view s' = conn_view s" by (auto simp: conn_view_def split: if_splits)
  then show ?thesis using inv by (rule conn_inv_view)
next
  case (TimerFire h)
  with assms obtain v where "s' = debounce_fire v (clearTimeout h s)"
    by (auto split: option.splits if_splits)
  then have "conn_view s' = conn_view s"
    by (simp add: debounce_fire_conn_view misc_conn_view)
  then show ?thesis using inv by (rule conn_inv_view)
next
  case (WsOpen i)
  with assms have "conn_view s' = conn_view s"
    by (auto simp: on_open_conn_view misc_conn_view split: if_splits)
  then show ?thesis using inv by (rule conn_inv_view)
next
  case (MessageInput raw)
  with assms have "conn_view s' = conn_view s" by (auto simp: conn_view_def)
  then show ?thesis using inv by (rule conn_inv_view)
next
  case SearchBlur
  with assms have "conn_view s' = conn_view s" by (auto simp: conn_view_def)
  then show ?thesis using inv by (rule conn_inv_view)
qed (use assms in \<open>auto simp: misc_conn_view on_message_conn_view composer_conn_view
       split: if_splits intro: conn_inv_view\<close>)

lemma conn_inv_page_load: "conn_inv (page_load t0 saved)"
proof (cases saved)
  case None
  then show ?thesis by (simp add: page_load_def initial_def conn_inv_def)
next
  case (Some p)
  show ?thesis
  proof (cases p)
    case Garbled
    with Some show ?thesis by (simp add: page_load_def initial_def conn_inv_def)
  next
    case (Parsed v)
    show ?thesis
    proof (cases "userInfo_text v")
      case (Inl e)
      with Some Parsed show ?thesis by (simp add: page_load_def initial_def conn_inv_def)
    next
      case (Inr t)
      then have "v \<noteq> Null \<and> v \<noteq> Undefined" by (auto simp: userInfo_text_def)
      with Some Parsed Inr show ?thesis
        by (simp add: page_load_def initial_def conn_inv_def connect_def)
    qed
  qed
qed

lemma conn_inv_run: "run L s evs = Some s' \<Longrightarrow> conn_inv s \<Longrightarrow> conn_inv s'"
proof (induction evs arbitrary: s)
  case Nil
  then show ?case by simp
next
  case (Cons ev evs)
  then show ?case by (auto split: option.splits intro: conn_inv_step)
qed

lemma conn_inv_open:
  assumes "conn_inv s" and "ws_is_open s"
  shows "\<exists>i em. ws s = Some i \<and> i < length (sockets s) \<and> readyState (sockets s ! i) = OPEN
           \<and> get_prop (me s) (js ''email'') = Inr em"
proof -
  from assms(2) obtain i where i: "ws s = Some i" "readyState (sockets s ! i) = OPEN"
    by (auto simp: ws_is_open_def split: option.splits)
  with assms(1) have l: "i < length (sockets s)" by (simp add: conn_inv_def)
  then have "sockets s \<noteq> []" by auto
  with assms(1) have "me s \<noteq> Null \<and> me s \<noteq> Undefined" by (simp add: conn_inv_def)
  then have "\<exists>em. get_prop (me s) (js ''email'') = Inr em" by (cases "me s") auto
  with i l show ?thesis by blast
qed

section \<open>The debounce task along a run\<close>

lemma ws_send_timer_view: "ws_send fr s = Inr s' \<Longrightarrow> timer_view s' = timer_view s"
  by (auto simp: ws_send_def timer_view_def split: option.splits ready_state.splits)

lemma ws_send_or_same_view:
  "timer_view (case ws_send fr s of Inl e \<Rightarrow> s | Inr s' \<Rightarrow> s') = timer_view s"
  by (cases "ws_send fr s") (simp_all add: ws_send_timer_view)

lemma fetch_timer_view [simp]: "timer_view (fetchAndRenderOnline f s) = timer_view s"
  by (simp add: timer_view_def fetchAndRenderOnline_def)

lemma debounce_fire_timer_view: "timer_view (debounce_fire v s) = timer_view s"
  by (simp add: debounce_fire_def ws_send_or_same_view split: sum.splits)

lemma on_open_timer_view: "timer_view (on_open s) = timer_view s"
  by (auto simp: on_open_def split: sum.splits dest: ws_send_timer_view)

lemma composer_timer_view: "timer_view (composer_submit s) = timer_view s"
proof -
  have a: "timer_view (s'\<lparr>messageInput := x\<rparr>) = timer_view s'" for s' x
    by (simp add: timer_view_def)
  have b: "timer_view (s\<lparr>alerts := x\<rparr>) = timer_view s" for x
    by (simp add: timer_view_def)
  show ?thesis
    by (simp add: composer_submit_def Let_def a b ws_send_or_same_view split: sum.splits)
qed

lemma on_message_timer_view: "timer_view (on_message d s) = timer_view s"
  by (auto simp: on_message_def on_message_try_def addMessage_def timer_view_def
      fetchAndRenderOnline_def split: sum.splits parsed.splits if_splits)

lemma login_click_timer_view: "timer_view (login_click r s) = timer_view s"
  by (auto simp: login_click_def login_body_def connect_def timer_view_def Let_def
      split: sum.splits login_result.splits prod.splits option.splits if_splits)

lemma misc_timer_view:
  "timer_view (on_search_focus s) = timer_view s"
  "timer_view (interval_fire s) = timer_view s"
  "timer_view (fetch_done L k out s) = timer_view s"
  "timer_view (member_click k s) = timer_view s"
  "timer_view (set_readyState i rs s) = timer_view s"
  by (auto simp: on_search_focus_def interval_fire_def fetch_done_def member_click_def
      set_readyState_def timer_view_def fetchAndRenderOnline_def
      split: sum.splits option.splits)

lemma step_timer_view:
  assumes "step L s ev = Some s'" and "\<not> is_fire ev" and "\<not> is_change ev"
  shows "timers s' = timers s \<and> onlineDebounce s' = onlineDebounce s
         \<and> next_timer s' = next_timer s \<and> now s' = now s + ticks [ev]"
proof -
  have "timer_view s' = (timers s, onlineDebounce s, next_timer s, now s + ticks [ev])"
    using assms
    by (cases ev)
       (auto simp: misc_timer_view on_open_timer_view composer_timer_view
          on_message_timer_view login_click_timer_view split: if_splits,
        auto simp: timer_view_def)
  then show ?thesis by (simp add: timer_view_def)
qed

lemma on_search_input_timers:
  assumes "timer_inv s"
  shows "timers (on_search_input raw s) = [(next_timer s, now s + 180, trim raw)]"
    and "onlineDebounce (on_search_input raw s) = Some (next_timer s)"
    and "next_timer (on_search_input raw s) = Suc (next_timer s)"
    and "now (on_search_input raw s) = now s"
proof -
  have t: "timers (on_search_input raw s) = [(next_timer s, now s + 180, trim raw)]"
  proof (cases "timers s")
    case Nil
    then show ?thesis
      by (auto simp: on_search_input_def Let_def setTimeout_debounce_def clearTimeout_def
          split: option.splits)
  next
    case (Cons t ts)
    with assms have "ts = []" "onlineDebounce s = Some (fst t)" "fst t \<noteq> 0"
      by (auto simp: timer_inv_def)
    with Cons show ?thesis
      by (cases t)
         (auto simp: on_search_input_def Let_def setTimeout_debounce_def clearTimeout_def)
  qed
  show "timers (on_search_input raw s) = [(next_timer s, now s + 180, trim raw)]" by (rule t)
  show "onlineDebounce (on_search_input raw s) = Some (next_timer s)"
    "next_timer (on_search_input raw s) = Suc (next_timer s)"
    "now (on_search_input raw s) = now s"
    by (auto simp: on_search_input_def Let_def setTimeout_debounce_def clearTimeout_def
        split: option.splits)
qed

lemma timer_inv_step:
  assumes "step L s ev = Some s'" and inv: "timer_inv s"
  shows "timer_inv s'"
proof (cases "is_change ev")
  case True
  then obtain raw where "ev = SearchInput raw" by (cases ev) auto
  with assms on_search_input_timers[OF inv, of raw] show ?thesis
    by (auto simp: timer_inv_def)
next
  case False
  show ?thesis
  proof (cases "is_fire ev")
    case True
    then obtain h where ev: "ev = TimerFire h" by (cases ev) auto
    with assms obtain v where s': "s' = debounce_fire v (clearTimeout h s)"
      by (auto split: option.splits if_splits)
    have "timer_view s' = timer_view (clearTimeout h s)"
      unfolding s' by (rule debounce_fire_timer_view)
    then have "timers s' = filter (\<lambda>(h', due, v). h' \<noteq> h) (timers s)"
      "onlineDebounce s' = onlineDebounce s" "next_timer s' = next_timer s"
      by (auto simp: timer_view_def clearTimeout_def)
    with inv show ?thesis
      by (auto simp: timer_inv_def intro: le_trans[OF length_filter_le])
  next
    case False
    with step_timer_view[OF assms(1) False \<open>\<not> is_change ev\<close>] inv show ?thesis
      by (auto simp: timer_inv_def)
  qed
qed

lemma timer_inv_page_load: "timer_inv (page_load t0 saved)"
  by (auto simp: page_load_def initial_def connect_def timer_inv_def
      split: option.splits parsed.splits sum.splits)

lemma timer_inv_run: "run L s evs = Some s' \<Longrightarrow> timer_inv s \<Longrightarrow> timer_inv s'"
proof (induction evs arbitrary: s)
  case Nil
  then show ?case by simp
next
  case (Cons ev evs)
  then show ?case by (auto split: option.splits intro: timer_inv_step)
qed

lemma last_change_other:
  "\<not> is_change ev \<Longrightarrow> last_change q el (ev # evs) = last_change q (el + ticks [ev]) evs"
  by (cases ev) auto

lemma elapsed_le_ticks: "snd (last_change q el evs) \<le> el + ticks evs"
proof (induction evs arbitrary: q el)
  case Nil
  then show ?case by simp
next
  case (Cons ev evs)
  show ?case
  proof (cases ev)
    case (Tick d)
    with Cons[of q "el + d"] show ?thesis by simp
  next
    case (SearchInput raw)
    with Cons[of "trim raw" 0] show ?thesis by simp
  qed (use Cons[of q el] in auto)
qed

lemma pending_after:
  assumes "run L s evs = Some s1" and "filter is_fire evs = []"
    and "timers s = [(h, due, q)]" and "timer_inv s" and "due + el = now s + 180"
  shows "\<exists>h' due'. timers s1 = [(h', due', fst (last_change q el evs))]
           \<and> due' + snd (last_change q el evs) = now s1 + 180"
  using assms
proof (induction evs arbitrary: s h due q el)
  case Nil
  then show ?case by simp
next
  case (Cons ev evs)
  from Cons.prems(1) obtain s' where st: "step L s ev = Some s'" and rest: "run L s' evs = Some s1"
    by (auto split: option.splits)
  from Cons.prems(2) have nf: "\<not> is_fire ev" and nfs: "filter is_fire evs = []"
    by (auto split: if_splits)
  have inv': "timer_inv s'" using timer_inv_step[OF st Cons.prems(4)] .
  show ?case
  proof (cases "is_change ev")
    case True
    then obtain raw where ev: "ev = SearchInput raw" by (cases ev) auto
    with st have s': "s' = on_search_input raw s" by simp
    note t = on_search_input_timers[OF Cons.prems(4), of raw]
    have "\<exists>h' due'. timers s1 = [(h', due', fst (last_change (trim raw) 0 evs))]
           \<and> due' + snd (last_change (trim raw) 0 evs) = now s1 + 180"
      by (rule Cons.IH[OF rest nfs _ inv', of "next_timer s" "now s + 180" "trim raw" 0])
         (simp_all add: s' t)
    then show ?thesis by (simp add: ev)
  next
    case False
    from step_timer_view[OF st nf False] Cons.prems(3,5)
    have "timers s' = [(h, due, q)]" "due + (el + ticks [ev]) = now s' + 180" by auto
    from Cons.IH[OF rest nfs this(1) inv' this(2)] show ?thesis
      by (simp add: last_change_other[OF False])
  qed
qed

lemma fire_single:
  assumes "timers s = [(h, due, q)]"
  shows "step L s (TimerFire h') =
           (if h' = h \<and> due \<le> now s then Some (debounce_fire q (clearTimeout h s)) else None)"
  using assms by auto

lemma no_fire_without_change:
  assumes "run L s evs = Some s'" and "timers s = []" and "filter is_change evs = []"
  shows "filter is_fire evs = [] \<and> timers s' = []"
  using assms
proof (induction evs arbitrary: s)
  case Nil
  then show ?case by simp
next
  case (Cons ev evs)
  from Cons.prems(1) obtain s0 where st: "step L s ev = Some s0" and rest: "run L s0 evs = Some s'"
    by (auto split: option.splits)
  from Cons.prems(3) have nc: "\<not> is_change ev" and ncs: "filter is_change evs = []"
    by (auto split: if_splits)
  have nf: "\<not> is_fire ev"
  proof
    assume "is_fire ev"
    then obtain h where "ev = TimerFire h" by (cases ev) auto
    with st Cons.prems(2) show False by simp
  qed
  from step_timer_view[OF st nf nc] Cons.prems(2) have "timers s0 = []" by simp
  from Cons.IH[OF rest this ncs] nf show ?case by simp
qed

lemma fired_timers:
  "timers s = [(h, due, q)] \<Longrightarrow> timers (debounce_fire v (clearTimeout h s)) = []"
  using debounce_fire_timer_view[of v "clearTimeout h s"]
  by (simp add: timer_view_def clearTimeout_def)

lemma ws_is_open_clearTimeout: "ws_is_open (clearTimeout h s) = ws_is_open s"
  by (simp add: ws_is_open_def clearTimeout_def split: option.splits)

lemma fired_sockets:
  assumes "conn_inv s"
  shows "if ws_is_open s
   then \<exists>i em. ws s = Some i \<and> get_prop (me s) (js ''email'') = Inr em
          \<and> sockets (debounce_fire v (clearTimeout h s))
            = (sockets s)[i := (sockets s ! i)\<lparr>sent := sent (sockets s ! i)
                @ [Obj ([(js ''type'', Str (js ''search'')), (js ''query'', Str v)]
                        @ (if em = Undefined then [] else [(js ''from'', to_json em)]))]\<rparr>]
   else sockets (debounce_fire v (clearTimeout h s)) = sockets s"
proof (cases "ws_is_open s")
  case True
  from conn_inv_open[OF assms True] obtain i em where
    h: "ws s = Some i" "i < length (sockets s)" "readyState (sockets s ! i) = OPEN"
       "get_prop (me s) (js ''email'') = Inr em" by blast
  then have "sockets (debounce_fire v (clearTimeout h s))
            = (sockets s)[i := (sockets s ! i)\<lparr>sent := sent (sockets s ! i)
                @ [Obj ([(js ''type'', Str (js ''search'')), (js ''query'', Str v)]
                        @ (if em = Undefined then [] else [(js ''from'', to_json em)]))]\<rparr>]"
    by (simp add: debounce_fire_def clearTimeout_def ws_is_open_def ws_send_def
        search_envelope_def fetchAndRenderOnline_def)
  with True h show ?thesis by auto
next
  case False
  then have "\<not> ws_is_open (clearTimeout h s)" by (simp add: ws_is_open_clearTimeout)
  then have "sockets (debounce_fire v (clearTimeout h s)) = sockets s"
    by (simp add: debounce_fire_def fetchAndRenderOnline_def) (simp add: clearTimeout_def)
  with False show ?thesis by simp
qed

text \<open>
  The claim C6 as the specification words it, that every burst of changes ends in
  exactly one search broadcast, fails while the connection is not open: with the
  restored session's socket still connecting, two changes 20 ms apart are followed
  by the firing of the task (handle 3) 180 ms after the second, and no frame at all
  has been sent on the one socket there is.
\<close>

theorem debounce_not_open_counterexample:
  "sent_after no_table (page_load 0 (Some (Parsed (Obj [(js ''email'', Str (js ''a@x.com''))]))))
     [SearchInput (js ''a''), Tick 20, SearchInput (js ''al''), Tick 180, TimerFire 3] 0 = Some []
   \<and> sent_after no_table (page_load 0 (Some (Parsed (Obj [(js ''email'', Str (js ''a@x.com''))]))))
     [SearchInput (js ''a''), Tick 20, SearchInput (js ''al''), Tick 180, TimerFire 3] 1 = None
   \<and> states_after no_table (page_load 0 (Some (Parsed (Obj [(js ''email'', Str (js ''a@x.com''))]))))
     [SearchInput (js ''a''), Tick 20, SearchInput (js ''al''), Tick 180, TimerFire 3]
     = Some [CONNECTING]"
  by (simp add: page_eval search_eval js_def)

text \<open>
  Claim C6, amended. In every state the page reaches at most one debounce task is
  pending. After a change of the search field and any further events among which no
  task fires, exactly one task is pending; it carries the trimmed text of the last
  change and is due 180 ms after that change, so it can fire only once 180 ms have
  passed since the last change, and not at all within 180 ms of the first change of
  such a burst. When it fires, it sends exactly one search envelope with the last
  change's query if the connection is open and none otherwise, and it leaves no task
  pending, so that nothing fires again before the next change.
\<close>

theorem debounce_single_task:
  assumes reach: "run L (page_load t0 saved) tr = Some s"
    and burst: "run L s (SearchInput r # evs) = Some s1"
    and unfired: "filter is_fire evs = []"
  shows "length (timers s) \<le> 1 \<and> length (timers s1) \<le> 1
     \<and> (\<exists>h due. timers s1 = [(h, due, fst (last_change (trim r) 0 evs))]
          \<and> due + snd (last_change (trim r) 0 evs) = now s1 + 180
          \<and> (\<forall>h'. step L s1 (TimerFire h')
                = (if h' = h \<and> 180 \<le> snd (last_change (trim r) 0 evs)
                   then Some (debounce_fire (fst (last_change (trim r) 0 evs)) (clearTimeout h s1))
                   else None))
          \<and> (ticks evs < 180 \<longrightarrow> (\<forall>h'. step L s1 (TimerFire h') = None))
          \<and> timers (debounce_fire (fst (last_change (trim r) 0 evs)) (clearTimeout h s1)) = []
          \<and> (if ws_is_open s1
              then \<exists>i em. ws s1 = Some i \<and> get_prop (me s1) (js ''email'') = Inr em
                \<and> sockets (debounce_fire (fst (last_change (trim r) 0 evs)) (clearTimeout h s1))
                  = (sockets s1)[i := (sockets s1 ! i)\<lparr>sent := sent (sockets s1 ! i)
                       @ [Obj ([(js ''type'', Str (js ''search'')),
                                (js ''query'', Str (fst (last_change (trim r) 0 evs)))]
                               @ (if em = Undefined then [] else [(js ''from'', to_json em)]))]\<rparr>]
              else sockets (debounce_fire (fst (last_change (trim r) 0 evs)) (clearTimeout h s1))
                   = sockets s1)
          \<and> (\<forall>evs2 s3.
                run L (debounce_fire (fst (last_change (trim r) 0 evs)) (clearTimeout h s1)) evs2 = Some s3
                \<and> filter is_change evs2 = [] \<longrightarrow> filter is_fire evs2 = []))"
proof -
  let ?q = "fst (last_change (trim r) 0 evs)" and ?el = "snd (last_change (trim r) 0 evs)"
  have inv: "timer_inv s" using timer_inv_run[OF reach timer_inv_page_load] .
  have inv1: "timer_inv s1" using timer_inv_run[OF burst inv] .
  have cinv: "conn_inv s" using conn_inv_run[OF reach conn_inv_page_load] .
  have cinv1: "conn_inv s1" using conn_inv_run[OF burst cinv] .
  from burst have rest: "run L (on_search_input r s) evs = Some s1" by simp
  have inv0: "timer_inv (on_search_input r s)"
    using timer_inv_step[of L s "SearchInput r", OF _ inv] by simp
  note t = on_search_input_timers[OF inv, of r]
  from pending_after[OF rest unfired t(1) inv0, of 0] t(4)
  obtain h due where p: "timers s1 = [(h, due, ?q)]" "due + ?el = now s1 + 180"
    by auto
  have le: "due \<le> now s1 \<longleftrightarrow> 180 \<le> ?el" using p(2) by arith
  have fire: "step L s1 (TimerFire h')
        = (if h' = h \<and> 180 \<le> ?el then Some (debounce_fire ?q (clearTimeout h s1)) else None)" for h'
    using fire_single[OF p(1), of L h'] le by simp
  have early: "ticks evs < 180 \<longrightarrow> (\<forall>h'. step L s1 (TimerFire h') = None)"
    using fire elapsed_le_ticks[of "trim r" 0 evs] by auto
  have after: "\<forall>evs2 s3. run L (debounce_fire ?q (clearTimeout h s1)) evs2 = Some s3
                \<and> filter is_change evs2 = [] \<longrightarrow> filter is_fire evs2 = []"
    using no_fire_without_change fired_timers[OF p(1)] by blast
  from inv inv1 have "length (timers s) \<le> 1" "length (timers s1) \<le> 1"
    by (simp_all add: timer_inv_def)
  with p fire early after fired_timers[OF p(1), of ?q] fired_sockets[OF cinv1, of ?q h]
  show ?thesis by blast
qed

theorem debounce_single_task_witness:
  "run no_table (page_load 0 (Some (Parsed (Obj [(js ''email'', Str (js ''a@x.com''))])))) [WsOpen 0]
     = Some ((page_load 0 (Some (Parsed (Obj [(js ''email'', Str (js ''a@x.com''))]))))
          \<lparr>sockets := [\<lparr>readyState = OPEN,
               sent = [Obj [(js ''type'', Str (js ''join'')), (js ''email'', Str (js ''a@x.com'')),
                            (js ''ts'', Num (js ''0''))]]\<rparr>],
           fetches := [Undefined]\<rparr>)
   \<and> run no_table ((page_load 0 (Some (Parsed (Obj [(js ''email'', Str (js ''a@x.com''))]))))
          \<lparr>sockets := [\<lparr>readyState = OPEN,
               sent = [Obj [(js ''type'', Str (js ''join'')), (js ''email'', Str (js ''a@x.com'')),
                            (js ''ts'', Num (js ''0''))]]\<rparr>],
           fetches := [Undefined]\<rparr>)
        (SearchInput (js ''a'') # [Tick 20, SearchInput (js ''al''), Tick 30,
           SearchInput (0xA0 # js ''ali'' @ [0x3000]), Tick 200])
     = Some ((page_load 0 (Some (Parsed (Obj [(js ''email'', Str (js ''a@x.com''))]))))
          \<lparr>now := 250,
           sockets := [\<lparr>readyState = OPEN,
               sent = [Obj [(js ''type'', Str (js ''join'')), (js ''email'', Str (js ''a@x.com'')),
                            (js ''ts'', Num (js ''0''))]]\<rparr>],
           memberSearch := 0xA0 # js ''ali'' @ [0x3000], onlineDebounce := Some 4,
           timers := [(4, 230, js ''ali'')], next_timer := 5, fetches := [Undefined]\<rparr>)
   \<and> filter is_fire [Tick 20, SearchInput (js ''al''), Tick 30,
           SearchInput (0xA0 # js ''ali'' @ [0x3000]), Tick 200] = []
   \<and> sent_after no_table ((page_load 0 (Some (Parsed (Obj [(js ''email'', Str (js ''a@x.com''))]))))
          \<lparr>now := 250,
           sockets := [\<lparr>readyState = OPEN,
               sent = [Obj [(js ''type'', Str (js ''join'')), (js ''email'', Str (js ''a@x.com'')),
                            (js ''ts'', Num (js ''0''))]]\<rparr>],
           memberSearch := 0xA0 # js ''ali'' @ [0x3000], onlineDebounce := Some 4,
           timers := [(4, 230, js ''ali'')], next_timer := 5, fetches := [Undefined]\<rparr>)
        [TimerFire 4] 0
     = Some [Obj [(js ''type'', Str (js ''join'')), (js ''email'', Str (js ''a@x.com'')),
                  (js ''ts'', Num (js ''0''))],
             Obj [(js ''type'', Str (js ''search'')), (js ''query'', Str (js ''ali'')),
                  (js ''from'', Str (js ''a@x.com''))]]"
proof -
  let ?r3 = "0xA0 # js ''ali'' @ [0x3000]"
  let ?evs = "[Tick 20, SearchInput (js ''al''), Tick 30, SearchInput ?r3, Tick 200]"
  let ?J = "Obj [(js ''type'', Str (js ''join'')), (js ''email'', Str (js ''a@x.com'')),
                 (js ''ts'', Num (js ''0''))]"
  let ?S = "Obj [(js ''type'', Str (js ''search'')), (js ''query'', Str (js ''ali'')),
                 (js ''from'', Str (js ''a@x.com''))]"
  let ?P = "page_load 0 (Some (Parsed (Obj [(js ''email'', Str (js ''a@x.com''))])))"
  let ?s = "?P\<lparr>sockets := [\<lparr>readyState = OPEN, sent = [?J]\<rparr>], fetches := [Undefined]\<rparr>"
  let ?s1 = "?P\<lparr>now := 250, sockets := [\<lparr>readyState = OPEN, sent = [?J]\<rparr>],
           memberSearch := ?r3, onlineDebounce := Some 4,
           timers := [(4, 230, js ''ali'')], next_timer := 5, fetches := [Undefined]\<rparr>"
  have tr: "trim (js ''a'') = js ''a''" "trim (js ''al'') = js ''al''" "trim ?r3 = js ''ali''"
    by (simp_all add: trim_def is_space_def js_def)
  have a: "run no_table ?P [WsOpen 0] = Some ?s"
    by (simp add: page_eval js_def)
  have b: "run no_table ?s (SearchInput (js ''a'') # ?evs) = Some ?s1"
    by (simp add: page_load_def initial_def connect_def userInfo_text_def read_prop_def field_def
        on_search_input_def Let_def setTimeout_debounce_def clearTimeout_def tr)
  have c: "filter is_fire ?evs = []" by simp
  have lc: "last_change (trim (js ''a'')) 0 ?evs = (js ''ali'', 200)"
    by (simp add: tr)
  have op: "ws_is_open ?s1" "ws ?s1 = Some 0"
    "get_prop (me ?s1) (js ''email'') = Inr (Str (js ''a@x.com''))"
    by (simp_all add: page_eval)
  have t: "timers ?s1 = [(4, 230, js ''ali'')]" by simp
  have so1: "sockets ?s1 = [\<lparr>readyState = OPEN, sent = [?J]\<rparr>]" by simp
  from debounce_single_task[OF a b c] lc op t
  have st: "step no_table ?s1 (TimerFire 4) = Some (debounce_fire (js ''ali'') (clearTimeout 4 ?s1))"
    and so: "sockets (debounce_fire (js ''ali'') (clearTimeout 4 ?s1))
       = [\<lparr>readyState = OPEN, sent = [?J, ?S]\<rparr>]"
    by (auto simp: so1 simp del: step.simps run.simps)
  have "sent_after no_table ?s1 [TimerFire 4] 0 = Some [?J, ?S]"
    using st so by (simp add: sent_after_def del: step.simps)
  with a b c show ?thesis by (simp del: step.simps run.simps)
qed

end
